theory Spec2Isabelle
  imports Complex_Main "HOL-Library.Word" "HOL-Library.Sublist"
begin

section \<open>Data model of cucumber.ino\<close>

text \<open>
  The controller runs on an Arduino Mega (AVR): \<open>int\<close> and \<open>unsigned int\<close> have 16 bits,
  \<open>long\<close> and \<open>unsigned long\<close> 32 bits. Counters that stay small (cursors, modes, the
  cooldown counter) are modelled as \<open>int\<close>; the values whose width is visible
  (\<open>unsigned int\<close> doses, \<open>unsigned long\<close> microsecond stamps) are words. Epoch seconds
  (\<open>time_t\<close>) are integers: the program only adds small offsets to clock readings and
  compares them, far from the range limit of the type. A \<open>float\<close> variable holds the rational
  number it stands for; every \<open>float\<close> operation of the source is the exact operation
  followed by rounding to the nearest single-precision value (\<open>to_float\<close> below).
  Infinities and NaN are not represented.
\<close>

record Day =
  day :: int
  maxTemp :: rat
  rainFlips :: int
  waterTankLevel :: "32 word"
  totalAdded :: "16 word"

record DateTime =
  weekDay :: int
  hour :: int
  minute :: int
  second :: int
  unixTime :: int

record settings_t =
  tempCoeff :: rat
  rainCoeff :: rat
  maxTally :: rat
  maxRain :: rat
  desiredLevels :: "int list"
  bufferSize :: "int list"
  fertTimes :: "int list"

definition settings :: settings_t where
  "settings = \<lparr> tempCoeff = -9, rainCoeff = 27, maxTally = 180, maxRain = 20,
      desiredLevels = [20, 20, 20, 20, 20, 20],
      bufferSize = [60, 60, 60, 60, 60, 60],
      fertTimes = [20, 20, 20, 20, 20, 20] \<rparr>"

text \<open>Pin numbers (\<open>pins\<close> in the source).\<close>

definition pins_spin :: "int list" where
  "pins_spin = [7, 5, 4, 39, 25, 27]"

definition pins_read :: "int list" where
  "pins_read = [8, 6, 26, 23, 28, 31]"

definition pins_pump :: int where "pins_pump = 52"
definition pins_fertiliser :: int where "pins_fertiliser = 50"
definition pins_tapWater :: int where "pins_tapWater = 47"
definition pins_trigger :: int where "pins_trigger = 43"
definition pins_rainSensor :: int where "pins_rainSensor = 18"

text \<open>
  The global \<open>state\<close> struct, flattened: \<open>hso_\<close> is \<open>state.haxSolenoidOn\<close>,
  \<open>ht_\<close> is \<open>state.haxTimers\<close>, \<open>w_\<close> is \<open>state.watering\<close>, \<open>f_\<close> is
  \<open>state.fertilising\<close>, \<open>auto_\<close> is \<open>state.automation\<close>. \<open>temperature\<close> is
  \<open>modules.tempSensor.temperature\<close> and \<open>pinLevel\<close> the level last written to each
  output pin.
\<close>

record state =
  hso_desiredState :: "bool list"
  hso_oldState :: "int list"
  hso_lock :: int
  ht_haxTimerState :: "int list"
  ht_triggers :: "int list"
  ht_isOn :: "bool list"
  rainSensorTripped :: bool
  lastSecond :: int
  waterTankUltrasonicTimer :: "32 word"
  w_currentSolenoid :: int
  w_tallies :: "rat list"
  w_finishTime :: int
  f_startTime :: int
  f_currentSolenoid :: int
  f_dumpCount :: int
  f_finishTime :: int
  firstLoop :: bool
  menu_mode :: int
  menu_changed :: bool
  noPinInterrupts :: int
  previousDays :: "Day list"
  time :: DateTime
  auto_fertilise :: bool
  auto_water :: bool
  auto_fertPump :: bool
  temperature :: rat
  pinLevel :: "int \<Rightarrow> bool"

text \<open>What one pass of \<open>loop\<close> reads from outside: the clock, the input pins, the
  temperature sensor.\<close>

record inputs =
  in_time :: DateTime
  in_read :: "int \<Rightarrow> bool"
  in_temp :: rat

section \<open>Helper functions of the source\<close>

definition timeCheck :: "int \<Rightarrow> int \<Rightarrow> bool" where
  "timeCheck x v = (x < 0 \<or> x = v)"

definition timeIs :: "int \<Rightarrow> int \<Rightarrow> int \<Rightarrow> int \<Rightarrow> state \<Rightarrow> bool" where
  "timeIs wd h m sec s =
     (timeCheck wd (weekDay (time s)) \<and> timeCheck h (hour (time s))
      \<and> timeCheck m (minute (time s)) \<and> timeCheck sec (second (time s)))"

definition digitalWrite :: "int \<Rightarrow> bool \<Rightarrow> state \<Rightarrow> state" where
  "digitalWrite pin v s = s\<lparr>pinLevel := (pinLevel s)(pin := v)\<rparr>"

definition haxSolenoidSet :: "nat \<Rightarrow> bool \<Rightarrow> state \<Rightarrow> state" where
  "haxSolenoidSet hxs newState s =
     s\<lparr>hso_oldState := (hso_oldState s)[hxs := -1],
       hso_desiredState := (hso_desiredState s)[hxs := newState]\<rparr>"

definition safeRelayWrite :: "int \<Rightarrow> bool \<Rightarrow> state \<Rightarrow> state" where
  "safeRelayWrite pin pinState s = digitalWrite pin pinState (s\<lparr>noPinInterrupts := 2\<rparr>)"

text \<open>The interrupt handler; \<open>echo\<close> is the level of the echo pin and \<open>micros\<close> the
  microsecond counter at the interrupt.\<close>

definition waterTankUltrasonicEcho :: "bool \<Rightarrow> 32 word \<Rightarrow> state \<Rightarrow> state" where
  "waterTankUltrasonicEcho echo micros s =
     (if noPinInterrupts s \<noteq> 0 then s
      else if echo then s\<lparr>waterTankUltrasonicTimer := micros\<rparr>
      else s\<lparr>previousDays := (previousDays s)
             [2 := (previousDays s ! 2)\<lparr>waterTankLevel := micros - waterTankUltrasonicTimer s\<rparr>]\<rparr>)"

text \<open>Single-precision arithmetic (\<open>float\<close>, and \<open>double\<close>, which is the same type on
  the AVR). \<open>ilog2 n\<close> is the position of the leading bit of \<open>n\<close>; \<open>float_exponent x\<close>
  is the \<open>e\<close> with \<open>2^e \<le> |x| < 2^(e+1)\<close>, not below -126 (the subnormal range);
  \<open>to_float\<close> rounds to the nearest multiple of \<open>2^(e-23)\<close>, a tie going to the even
  one. A result beyond the largest \<open>float\<close> is not turned into an infinity.\<close>

function ilog2 :: "int \<Rightarrow> int" where
  "ilog2 n = (if n \<le> 1 then 0 else 1 + ilog2 (n div 2))"
  by pat_completeness auto
termination
  by (relation "measure nat") auto

declare ilog2.simps [simp del]

definition pow2 :: "int \<Rightarrow> rat" where
  "pow2 e = (if 0 \<le> e then 2 ^ nat e else 1 / 2 ^ nat (- e))"

definition float_exponent :: "rat \<Rightarrow> int" where
  "float_exponent x =
     (let (p, q) = quotient_of \<bar>x\<bar>;
          e = ilog2 p - ilog2 q
      in max (if pow2 e \<le> \<bar>x\<bar> then e else e - 1) (- 126))"

definition round_half_even :: "rat \<Rightarrow> int" where
  "round_half_even r =
     (let n = \<lfloor>r\<rfloor>; f = r - of_int n
      in if f < 1/2 then n else if 1/2 < f then n + 1 else if even n then n else n + 1)"

definition to_float :: "rat \<Rightarrow> rat" where
  "to_float x =
     (if x = 0 then 0
      else (let u = pow2 (float_exponent x - 23) in of_int (round_half_even (x / u)) * u))"

definition fadd :: "rat \<Rightarrow> rat \<Rightarrow> rat" where
  "fadd x y = to_float (x + y)"

definition fsub :: "rat \<Rightarrow> rat \<Rightarrow> rat" where
  "fsub x y = to_float (x - y)"

definition fmul :: "rat \<Rightarrow> rat \<Rightarrow> rat" where
  "fmul x y = to_float (x * y)"

definition float_of_int :: "int \<Rightarrow> rat" where
  "float_of_int i = to_float (of_int i)"

text \<open>Arduino's \<open>round\<close> macro: \<open>(x)>=0 ? (long)((x)+0.5) : (long)((x)-0.5)\<close>; the sum
  is a \<open>float\<close> sum, the cast to \<open>long\<close> truncates towards zero, and is this function
  on the values that fit a \<open>long\<close>.\<close>

definition trunc_long :: "rat \<Rightarrow> int" where
  "trunc_long x = (if 0 \<le> x then \<lfloor>x\<rfloor> else \<lceil>x\<rceil>)"

definition round_macro :: "rat \<Rightarrow> int" where
  "round_macro x = (if 0 \<le> x then trunc_long (fadd x (1/2)) else trunc_long (fsub x (1/2)))"

text \<open>\<open>calcWater\<close>: \<open>water_round\<close> is the \<open>round(...)\<close> inside it, a \<open>long\<close>; the
  \<open>long\<close> result of \<open>max(0, round(...))\<close> is returned as a 16-bit \<open>unsigned int\<close>.
  The \<open>int\<close> operands (\<open>rainFlips\<close>, \<open>desiredLevels[line]\<close>) are converted to
  \<open>float\<close> where they meet one.\<close>

definition water_round :: "settings_t \<Rightarrow> nat \<Rightarrow> nat \<Rightarrow> state \<Rightarrow> int" where
  "water_round cfg d line s =
     (let deltaWater =
            fadd (fmul (min (maxRain cfg) (float_of_int (rainFlips (previousDays s ! d))))
                       (rainCoeff cfg))
                 (fmul (maxTemp (previousDays s ! d)) (tempCoeff cfg));
          current = fadd (w_tallies s ! line) deltaWater
      in round_macro (fsub (float_of_int (desiredLevels cfg ! line)) current))"

definition calcWater :: "settings_t \<Rightarrow> nat \<Rightarrow> nat \<Rightarrow> state \<Rightarrow> 16 word" where
  "calcWater cfg d line s = word_of_int (max 0 (water_round cfg d line s))"

section \<open>The control loop\<close>

subsection \<open>Solenoid position controller (the first loop of \<open>loop\<close>)\<close>

definition solenoid_service :: "(int \<Rightarrow> bool) \<Rightarrow> nat \<Rightarrow> state \<Rightarrow> state" where
  "solenoid_service rd i s =
     (let newState = rd (pins_read ! i);
          s1 = (if hso_oldState s ! i < 0 \<or> newState \<noteq> hso_desiredState s ! i then
                  (if hso_lock s = int i \<or> hso_lock s < 0 then
                     (let s' = (if hso_oldState s ! i < 0 \<and> second (time s) \<noteq> lastSecond s
                                then s\<lparr>hso_oldState := (hso_oldState s)[i := hso_oldState s ! i + 1]\<rparr>
                                else s)
                      in (digitalWrite (pins_spin ! i) True s')\<lparr>hso_lock := int i\<rparr>)
                   else s)
                else if hso_oldState s ! i \<noteq> of_bool newState then
                  (digitalWrite (pins_spin ! i) False s)\<lparr>hso_lock := -1\<rparr>
                else s)
      in if 0 \<le> hso_oldState s1 ! i
         then s1\<lparr>hso_oldState := (hso_oldState s1)[i := of_bool newState]\<rparr>
         else s1)"

definition loop_solenoids :: "(int \<Rightarrow> bool) \<Rightarrow> state \<Rightarrow> state" where
  "loop_solenoids rd s = fold (solenoid_service rd) [0..<6] s"

definition loop_rain :: "(int \<Rightarrow> bool) \<Rightarrow> state \<Rightarrow> state" where
  "loop_rain rd s =
     (if rd pins_rainSensor \<and> \<not> rainSensorTripped s
      then s\<lparr>rainSensorTripped := True,
             previousDays := (previousDays s)
               [2 := (previousDays s ! 2)\<lparr>rainFlips := rainFlips (previousDays s ! 2) + 1\<rparr>]\<rparr>
      else s)"

subsection \<open>The once-per-second block\<close>

definition tick_cooldown :: "state \<Rightarrow> state" where
  "tick_cooldown s =
     (if noPinInterrupts s \<noteq> 0 then s\<lparr>noPinInterrupts := noPinInterrupts s - 1\<rparr> else s)"

definition tick_rain_reset :: "(int \<Rightarrow> bool) \<Rightarrow> state \<Rightarrow> state" where
  "tick_rain_reset rd s = (if \<not> rd pins_rainSensor then s\<lparr>rainSensorTripped := False\<rparr> else s)"

definition tick_minute :: "rat \<Rightarrow> state \<Rightarrow> state" where
  "tick_minute temp s =
     (if timeIs (-1) (-1) (-1) 0 s \<or> firstLoop s then
        (let s1 = s\<lparr>temperature := temp\<rparr>;
             s2 = (if maxTemp (previousDays s1 ! 2) < temperature s1
                   then s1\<lparr>previousDays := (previousDays s1)
                          [2 := (previousDays s1 ! 2)\<lparr>maxTemp := temperature s1\<rparr>]\<rparr>
                   else s1);
             s3 = (if noPinInterrupts s2 = 0
                   then digitalWrite pins_trigger False
                          (digitalWrite pins_trigger True (digitalWrite pins_trigger False s2))
                   else s2)
         in if menu_mode s3 = 0 then s3\<lparr>menu_changed := True\<rparr> else s3)
      else s)"

definition tick_pump :: "state \<Rightarrow> state" where
  "tick_pump s =
     (let s1 = (if timeIs (-1) 7 10 0 s \<and> auto_fertPump s
                then safeRelayWrite pins_pump True s else s)
      in if timeIs (-1) 7 12 0 s1 \<and> auto_fertPump s1
         then safeRelayWrite pins_pump False s1 else s1)"

definition tick_rotate :: "state \<Rightarrow> state" where
  "tick_rotate s =
     (if timeIs (-1) 8 0 0 s then
        (let pd = previousDays s;
             pd1 = pd[0 := pd ! 1];
             pd2 = pd1[1 := pd1 ! 2];
             pd3 = pd2[2 := (pd2 ! 2)\<lparr>day := weekDay (time s), maxTemp := temperature s,
                                      rainFlips := 0, totalAdded := 0\<rparr>];
             s1 = s\<lparr>previousDays := pd3\<rparr>
         in if auto_water s1 then s1\<lparr>w_currentSolenoid := -1\<rparr> else s1)
      else s)"

text \<open>The watering sweep. The comparison of the cursor with the number of lines is
  unsigned in C; the cursor is non-negative there.\<close>

definition tick_watering :: "settings_t \<Rightarrow> state \<Rightarrow> state" where
  "tick_watering cfg s =
     (if -1 \<le> w_currentSolenoid s \<and> w_finishTime s \<le> unixTime (time s) then
        (let s1 = (if 0 \<le> w_currentSolenoid s
                   then haxSolenoidSet (nat (w_currentSolenoid s)) False s else s);
             s2 = s1\<lparr>w_currentSolenoid := w_currentSolenoid s1 + 1\<rparr>
         in if 6 \<le> w_currentSolenoid s2
            then s2\<lparr>w_currentSolenoid := -2, w_finishTime := 0\<rparr>
            else
              (let line = nat (w_currentSolenoid s2);
                   added = calcWater cfg 1 line s2;
                   s3 = s2\<lparr>previousDays := (previousDays s2)
                          [2 := (previousDays s2 ! 2)
                             \<lparr>totalAdded := totalAdded (previousDays s2 ! 2) + added\<rparr>]\<rparr>
               in if (word_of_int (bufferSize cfg ! line) :: 16 word) \<le> added
                  then haxSolenoidSet line True
                         (s3\<lparr>w_finishTime := unixTime (time s3) + uint added\<rparr>)
                  else s3))
      else s)"

definition tick_fert_trigger :: "state \<Rightarrow> state" where
  "tick_fert_trigger s =
     (if timeIs 0 16 0 0 s \<and> auto_fertilise s
      then s\<lparr>f_startTime := unixTime (time s)\<rparr> else s)"

definition tick_fert_priming :: "state \<Rightarrow> state" where
  "tick_fert_priming s =
     (let s1 = (if unixTime (time s) = f_startTime s
                then safeRelayWrite pins_tapWater True s else s);
          s2 = (if unixTime (time s1) = f_startTime s1 + 32
                then safeRelayWrite pins_fertiliser True
                       (safeRelayWrite pins_pump True (safeRelayWrite pins_tapWater False s1))
                else s1);
          s3 = (if unixTime (time s2) = f_startTime s2 + 40
                then safeRelayWrite pins_fertiliser False
                       (safeRelayWrite pins_pump False (safeRelayWrite pins_tapWater True s2))
                else s2)
      in if unixTime (time s3) = f_startTime s3 + 72
         then (safeRelayWrite pins_tapWater False s3)\<lparr>f_currentSolenoid := -1, f_startTime := 0\<rparr>
         else s3)"

definition tick_fert_dispense :: "settings_t \<Rightarrow> state \<Rightarrow> state" where
  "tick_fert_dispense cfg s =
     (if -1 \<le> f_currentSolenoid s \<and> f_finishTime s \<le> unixTime (time s) then
        (let s1 = (if 0 \<le> f_currentSolenoid s
                   then haxSolenoidSet (nat (f_currentSolenoid s)) False s else s);
             s2 = s1\<lparr>f_currentSolenoid := f_currentSolenoid s1 + 1\<rparr>
         in if 6 \<le> f_currentSolenoid s2 then
              (let s3 = s2\<lparr>f_currentSolenoid := -1, f_finishTime := 0,
                           f_dumpCount := f_dumpCount s2 + 1\<rparr>
               in if f_dumpCount s3 = 3
                  then s3\<lparr>f_currentSolenoid := -2, f_dumpCount := 0\<rparr> else s3)
            else if 0 < fertTimes cfg ! nat (f_currentSolenoid s2) then
              haxSolenoidSet (nat (f_currentSolenoid s2)) True
                (s2\<lparr>f_finishTime := unixTime (time s2)
                                      + fertTimes cfg ! nat (f_currentSolenoid s2)\<rparr>)
            else s2)
      else s)"

definition haxTimer_line :: "nat \<Rightarrow> state \<Rightarrow> state" where
  "haxTimer_line i s =
     (if 1 < ht_haxTimerState s ! i \<and> ht_triggers s ! i = unixTime (time s) then
        (let s1 = s\<lparr>ht_isOn := (ht_isOn s)[i := \<not> ht_isOn s ! i]\<rparr>;
             s2 = haxSolenoidSet i (ht_isOn s1 ! i) s1;
             onDuration = (if ht_haxTimerState s2 ! i = 4 then 600 else 1200)
         in if ht_haxTimerState s2 ! i = 4 \<or> ht_haxTimerState s2 ! i = 5 then
              (if ht_isOn s2 ! i
               then s2\<lparr>ht_triggers := (ht_triggers s2)[i := ht_triggers s2 ! i + onDuration]\<rparr>
               else s2\<lparr>ht_triggers := (ht_triggers s2)
                         [i := ht_triggers s2 ! i + 604800 - onDuration]\<rparr>)
            else s2\<lparr>ht_triggers := (ht_triggers s2)[i := 0],
                    ht_haxTimerState := (ht_haxTimerState s2)[i := 0]\<rparr>)
      else s)"

definition tick_haxTimers :: "state \<Rightarrow> state" where
  "tick_haxTimers s = fold haxTimer_line [0..<6] s"

definition second_tick :: "settings_t \<Rightarrow> inputs \<Rightarrow> state \<Rightarrow> state" where
  "second_tick cfg inp s =
     (let s1 = tick_cooldown s;
          s2 = tick_rain_reset (in_read inp) s1;
          s3 = tick_minute (in_temp inp) s2;
          s4 = tick_pump s3;
          s5 = tick_rotate s4;
          s6 = tick_watering cfg s5;
          s7 = tick_fert_trigger s6;
          s8 = tick_fert_priming s7;
          s9 = tick_fert_dispense cfg s8;
          s10 = tick_haxTimers s9
      in s10\<lparr>firstLoop := False, lastSecond := second (time s10)\<rparr>)"

text \<open>One pass of \<open>loop\<close> with the joystick at rest: the menu section then only redraws
  the display and clears \<open>state.menu.changed\<close>; what the menu does when the button is
  pressed is modelled command by command below.\<close>

definition loop :: "settings_t \<Rightarrow> inputs \<Rightarrow> state \<Rightarrow> state" where
  "loop cfg inp s =
     (let s0 = s\<lparr>time := in_time inp\<rparr>;
          s1 = loop_solenoids (in_read inp) s0;
          s2 = loop_rain (in_read inp) s1;
          s3 = (if second (time s2) \<noteq> lastSecond s2 then second_tick cfg inp s2 else s2)
      in s3\<lparr>menu_changed := False\<rparr>)"

text \<open>The state after \<open>setup\<close>: the initialisers of the global, the automation switches
  read from EEPROM, the tallies seeded with the desired levels, every line marked
  unconfirmed, the clock read once.\<close>

definition initial_day :: Day where
  "initial_day = \<lparr> day = -1, maxTemp = 0, rainFlips = 0, waterTankLevel = 0, totalAdded = 0 \<rparr>"

definition setup_state :: "settings_t \<Rightarrow> bool \<Rightarrow> bool \<Rightarrow> bool \<Rightarrow> DateTime \<Rightarrow> state" where
  "setup_state cfg ee_fertilise ee_water ee_fertPump now =
     \<lparr> hso_desiredState = replicate 6 False,
       hso_oldState = replicate 6 (-1),
       hso_lock = -1,
       ht_haxTimerState = replicate 6 0,
       ht_triggers = replicate 6 0,
       ht_isOn = replicate 6 False,
       rainSensorTripped = False,
       lastSecond = -1,
       waterTankUltrasonicTimer = 0,
       w_currentSolenoid = -2,
       w_tallies = map float_of_int (desiredLevels cfg),
       w_finishTime = 0,
       f_startTime = 0,
       f_currentSolenoid = -2,
       f_dumpCount = 0,
       f_finishTime = 0,
       firstLoop = True,
       menu_mode = 0,
       menu_changed = False,
       noPinInterrupts = 0,
       previousDays = [initial_day, initial_day, initial_day\<lparr>day := weekDay now\<rparr>],
       time = now,
       auto_fertilise = ee_fertilise,
       auto_water = ee_water,
       auto_fertPump = ee_fertPump,
       temperature = 0,
       pinLevel = (\<lambda>_. False) \<rparr>"

text \<open>Activating a hack-timer mode from the menu (the \<open>default:\<close> case of the menu
  switch with \<open>state.menu.activate\<close> set): the level wraps into 0..5, is stored as the
  line's mode, and the line is armed.\<close>

definition menu_haxTimer :: "nat \<Rightarrow> int \<Rightarrow> state \<Rightarrow> state" where
  "menu_haxTimer hxs lvl s =
     (let level = (if lvl < 0 then 5 else if 5 < lvl then 0 else lvl);
          s1 = s\<lparr>ht_haxTimerState := (ht_haxTimerState s)[hxs := level]\<rparr>;
          arm = (\<lambda>trg on. haxSolenoidSet hxs on
                   (s1\<lparr>ht_triggers := (ht_triggers s1)[hxs := trg],
                       ht_isOn := (ht_isOn s1)[hxs := on]\<rparr>))
      in if level = 0 then arm 0 False
         else if level = 1 then arm 0 True
         else if level = 2 \<or> level = 4 then arm (unixTime (time s1) + 600) True
         else arm (unixTime (time s1) + 1200) True)"

text \<open>Starting the fertilizing cycle from the menu (case 7 of the menu switch with
  \<open>state.menu.activate\<close> set).\<close>

definition menu_fertilise :: "state \<Rightarrow> state" where
  "menu_fertilise s =
     (if f_startTime s = 0 then s\<lparr>f_startTime := unixTime (time s) + 1\<rparr> else s)"

section \<open>Observations and example states\<close>

text \<open>What a hack timer holds for line \<open>i\<close> (mode, trigger, isOn), what the position
  controller holds for it (desired position, confirmed state), and the six-element
  shape of the per-line arrays.\<close>

definition hax_view :: "nat \<Rightarrow> state \<Rightarrow> int \<times> int \<times> bool" where
  "hax_view i s = (ht_haxTimerState s ! i, ht_triggers s ! i, ht_isOn s ! i)"

definition line_view :: "nat \<Rightarrow> state \<Rightarrow> bool \<times> int" where
  "line_view i s = (hso_desiredState s ! i, hso_oldState s ! i)"

definition arrays_ok :: "state \<Rightarrow> bool" where
  "arrays_ok s = (length (hso_desiredState s) = 6 \<and> length (hso_oldState s) = 6
     \<and> length (ht_haxTimerState s) = 6 \<and> length (ht_triggers s) = 6 \<and> length (ht_isOn s) = 6)"

definition clock_at :: "int \<Rightarrow> int \<Rightarrow> int \<Rightarrow> int \<Rightarrow> int \<Rightarrow> DateTime" where
  "clock_at wd h m sec u = \<lparr> weekDay = wd, hour = h, minute = m, second = sec, unixTime = u \<rparr>"

text \<open>The controller switched on on Monday 2 November 2026 at 12:00:00 UTC, all three
  automation switches set.\<close>

definition boot :: state where
  "boot = setup_state settings True True True (clock_at 2 12 0 0 1793620800)"

text \<open>Sunday 8 November 2026, 16:00:00 UTC, read with Sunday as weekday 1 (the numbering
  1..7 in the comment of \<open>timeIs\<close>) and with Sunday as weekday 0 (the index of
  \<open>"SUN"\<close> in \<open>daysOfTheWeek\<close>, which the display indexes with the weekday).\<close>

definition sunday_1600 :: DateTime where
  "sunday_1600 = clock_at 1 16 0 0 1794153600"

definition sunday0_1600 :: DateTime where
  "sunday0_1600 = clock_at 0 16 0 0 1794153600"

definition sunday_inputs :: inputs where
  "sunday_inputs = \<lparr> in_time = sunday_1600, in_read = (\<lambda>_. False), in_temp = 20 \<rparr>"

text \<open>Lines 2 and 5 with weekly timers due at 12:10:00.\<close>

definition weekly_example :: state where
  "weekly_example = boot\<lparr>ht_haxTimerState := [0, 0, 4, 0, 0, 5],
                         ht_triggers := [0, 0, 1793621400, 0, 0, 1793621400],
                         time := clock_at 2 12 10 0 1793621400\<rparr>"

text \<open>Line 0 set to the ten-minute timer from the menu at boot time, seen ten minutes
  later.\<close>

definition oneshot_example :: state where
  "oneshot_example = (menu_haxTimer 0 2 boot)\<lparr>time := clock_at 2 12 10 0 1793621400\<rparr>"

definition relay_example :: state where
  "relay_example = safeRelayWrite pins_pump True boot"

text \<open>Wednesday 4 November 2026 at 07:10:00 and at 07:12:00.\<close>

definition pump_on_example :: state where
  "pump_on_example = boot\<lparr>time := clock_at 4 7 10 0 1793776200\<rparr>"

definition pump_off_example :: state where
  "pump_off_example = (safeRelayWrite pins_pump True boot)\<lparr>time := clock_at 4 7 12 0 1793776320\<rparr>"

text \<open>Running one block of the once-per-second section over successive clock readings:
  \<open>run_ticks blk clock n s\<close> is the state after the ticks at \<open>clock 0\<close>, ...,
  \<open>clock (n - 1)\<close>.\<close>

fun run_ticks :: "(state \<Rightarrow> state) \<Rightarrow> (nat \<Rightarrow> DateTime) \<Rightarrow> nat \<Rightarrow> state \<Rightarrow> state" where
  "run_ticks blk clock 0 s = s"
| "run_ticks blk clock (Suc n) s = blk ((run_ticks blk clock n s)\<lparr>time := clock n\<rparr>)"

text \<open>The three relays of the dosing manifold: tap water, pump, fertilizer valve.\<close>

definition relay_pins :: "state \<Rightarrow> bool \<times> bool \<times> bool" where
  "relay_pins s = (pinLevel s pins_tapWater, pinLevel s pins_pump, pinLevel s pins_fertiliser)"

text \<open>The relays \<open>k\<close> ticks into the priming phase, given what they were before.\<close>

definition priming_expect :: "nat \<Rightarrow> bool \<times> bool \<times> bool \<Rightarrow> bool \<times> bool \<times> bool" where
  "priming_expect k p0 =
     (if k = 0 then p0
      else if k \<le> 32 then (True, fst (snd p0), snd (snd p0))
      else if k \<le> 40 then (False, True, True)
      else if k \<le> 72 then (True, False, False)
      else (False, False, False))"

text \<open>The fertilizing cycle started from the menu at boot time; the clock of the
  following seconds, 12:00:01 onwards.\<close>

definition prime_example :: state where
  "prime_example = menu_fertilise boot"

definition prime_clock :: "nat \<Rightarrow> DateTime" where
  "prime_clock k =
     clock_at 2 (12 + (int k + 1) div 3600) (((int k + 1) div 60) mod 60) ((int k + 1) mod 60)
       (1793620801 + int k)"

text \<open>The scenario of the dosage model: Tuesday 08:06:45, lines 0 to 2 watered for 135
  seconds each, line 2 due to close now; yesterday had 5 rain flips and a maximum of 30
  degrees.\<close>

definition yesterday :: Day where
  "yesterday = \<lparr> day = 2, maxTemp = 30, rainFlips = 5, waterTankLevel = 0, totalAdded = 0 \<rparr>"

definition scenario_state :: state where
  "scenario_state =
     boot\<lparr>previousDays := [initial_day, yesterday, initial_day\<lparr>day := 3, totalAdded := 405\<rparr>],
          w_currentSolenoid := 2, w_finishTime := 1793693205,
          hso_desiredState := [False, False, True, False, False, False],
          time := clock_at 3 8 6 45 1793693205\<rparr>"

text \<open>A day record with no rain and a maximum temperature that is the \<open>float\<close> next
  to one sixth (bit pattern 3E2AAAAA); a day record with no rain and a maximum temperature
  reading of 8000.\<close>

definition sixth_state :: state where
  "sixth_state =
     boot\<lparr>previousDays := [initial_day,
                            yesterday\<lparr>maxTemp := 11184810 / 67108864, rainFlips := 0\<rparr>,
                            initial_day\<lparr>day := 3\<rparr>]\<rparr>"

definition heat_state :: state where
  "heat_state =
     boot\<lparr>previousDays := [initial_day, yesterday\<lparr>maxTemp := 8000, rainFlips := 0\<rparr>,
                            initial_day\<lparr>day := 3\<rparr>]\<rparr>"

text \<open>Passes of the loop after boot, at 12:00:\<open>sec\<close>, with all input pins low or with
  only the feedback of line 0 (pin 8) high.\<close>

definition quiet_pins :: "int \<Rightarrow> bool" where
  "quiet_pins p = False"

definition line0_feedback_high :: "int \<Rightarrow> bool" where
  "line0_feedback_high p = (p = 8)"

definition pass :: "int \<Rightarrow> (int \<Rightarrow> bool) \<Rightarrow> state \<Rightarrow> state" where
  "pass sec rd s = loop settings
      \<lparr> in_time = clock_at 2 12 0 sec (1793620800 + sec), in_read = rd, in_temp = 20 \<rparr> s"

definition before_glitch :: state where
  "before_glitch = pass 2 quiet_pins (pass 1 line0_feedback_high (pass 1 quiet_pins boot))"

definition after_glitch :: state where
  "after_glitch = pass 3 quiet_pins (pass 2 line0_feedback_high before_glitch)"

text \<open>The cursor (or any other observation \<open>obs\<close>) after 0, 1, ..., \<open>n\<close> ticks of a
  block.\<close>

definition history :: "(state \<Rightarrow> state) \<Rightarrow> (state \<Rightarrow> 'k) \<Rightarrow> (nat \<Rightarrow> DateTime) \<Rightarrow> nat \<Rightarrow> state \<Rightarrow> 'k list" where
  "history blk obs clock n s = map (\<lambda>j. obs (run_ticks blk clock j s)) [0..<Suc n]"

text \<open>The watering cursor: what an advancing tick makes of it, the cursor values still
  to come from a given one, and how many advances are left.\<close>

definition w_next :: "int \<Rightarrow> int" where
  "w_next c = (if 5 \<le> c then -2 else c + 1)"

function w_chain :: "int \<Rightarrow> int list" where
  "w_chain c = (if c < -1 then [c] else if 5 \<le> c then [c, -2] else c # w_chain (c + 1))"
  by pat_completeness auto
termination
  by (relation "measure (\<lambda>c. nat (5 - c))") auto

declare w_chain.simps [simp del]

definition w_rank :: "int \<Rightarrow> nat" where
  "w_rank c = (if c < -1 then 0 else nat (6 - c))"

text \<open>The lines of a cycle with cursor \<open>cur\<close>: the cursor is in -2..5 and no line but
  the cursor's is set open.\<close>

definition one_open :: "(state \<Rightarrow> int) \<Rightarrow> state \<Rightarrow> bool" where
  "one_open cur s = (arrays_ok s \<and> -2 \<le> cur s \<and> cur s \<le> 5
      \<and> (\<forall>i<6. hso_desiredState s ! i \<longrightarrow> cur s = int i))"

text \<open>The fertilizing cycle's part of the once-per-second section (priming, then
  dispensing), its cursor and repetition counter, and the same three functions for the
  pair.\<close>

definition fert_tick :: "settings_t \<Rightarrow> state \<Rightarrow> state" where
  "fert_tick cfg s = tick_fert_dispense cfg (tick_fert_priming s)"

definition f_obs :: "state \<Rightarrow> int \<times> int" where
  "f_obs s = (f_currentSolenoid s, f_dumpCount s)"

definition f_next :: "int \<times> int \<Rightarrow> int \<times> int" where
  "f_next k = (if 5 \<le> fst k then (if snd k + 1 = 3 then (-2, 0) else (-1, snd k + 1))
               else (fst k + 1, snd k))"

function f_chain :: "int \<times> int \<Rightarrow> (int \<times> int) list" where
  "f_chain (c, d) =
     (if c < -1 \<or> 5 < c \<or> d < 0 \<or> 2 < d then [(c, d)]
      else if c < 5 then (c, d) # f_chain (c + 1, d)
      else if d = 2 then [(c, d), (-2, 0)]
      else (c, d) # f_chain (-1, d + 1))"
  by pat_completeness auto
termination
  by (relation "measure (\<lambda>(c, d). nat (3 - d) * 7 + nat (5 - c))") auto

declare f_chain.simps [simp del]

definition f_rank :: "int \<times> int \<Rightarrow> nat" where
  "f_rank k = (if fst k < -1 then 0 else nat (3 - snd k) * 7 + nat (6 - fst k))"

text \<open>Three sweeps of the lines, each entered through cursor -1, then Idle with the
  counter back at 0.\<close>

definition three_sweeps :: "(int \<times> int) list" where
  "three_sweeps = concat (map (\<lambda>d. map (\<lambda>c. (c, d)) [-1, 0, 1, 2, 3, 4, 5]) [0, 1, 2]) @ [(-2, 0)]"

definition fert_inv :: "state \<Rightarrow> bool" where
  "fert_inv s = (one_open f_currentSolenoid s \<and> 0 \<le> f_dumpCount s \<and> f_dumpCount s \<le> 2)"

definition fert_bound :: "state \<Rightarrow> bool" where
  "fert_bound s = (f_currentSolenoid s \<le> 5 \<and> 0 \<le> f_dumpCount s \<and> f_dumpCount s \<le> 2)"

definition cycle_watch :: "state \<Rightarrow> (int \<times> int) \<times> (bool \<times> bool \<times> bool) \<times> int" where
  "cycle_watch s = (f_obs s, relay_pins s, f_startTime s)"

text \<open>Tuesday 08:00:00, the watering cycle just triggered; the clock of the following
  seconds.\<close>

definition water_example :: state where
  "water_example =
     boot\<lparr>previousDays := [initial_day, yesterday, initial_day\<lparr>day := 3\<rparr>],
          w_currentSolenoid := -1,
          time := clock_at 3 8 0 0 1793692800\<rparr>"

definition water_clock :: "nat \<Rightarrow> DateTime" where
  "water_clock k = clock_at 3 (8 + int k div 3600) ((int k div 60) mod 60) (int k mod 60)
                     (1793692800 + int k)"

text \<open>The fertilizing cycle as the last priming step leaves it, at 12:01:13; the clock
  from that second on.\<close>

definition fert_example :: state where
  "fert_example = boot\<lparr>f_currentSolenoid := -1, time := clock_at 2 12 1 13 1793620873\<rparr>"

definition fert_clock :: "nat \<Rightarrow> DateTime" where
  "fert_clock k = prime_clock (72 + k)"

section \<open>Shared lemmas\<close>

lemma arrays_ok_boot: "arrays_ok boot"
  by (simp add: arrays_ok_def boot_def setup_state_def)

subsection \<open>The hack-timer loop, line by line\<close>

lemma haxTimer_line_other:
  "j \<noteq> i \<Longrightarrow> hax_view i (haxTimer_line j s) = hax_view i s
     \<and> line_view i (haxTimer_line j s) = line_view i s"
  by (simp add: haxTimer_line_def haxSolenoidSet_def hax_view_def line_view_def Let_def)

lemma haxTimer_line_time: "time (haxTimer_line j s) = time s"
  by (simp add: haxTimer_line_def haxSolenoidSet_def Let_def)

lemma haxTimer_line_arrays: "arrays_ok (haxTimer_line j s) = arrays_ok s"
  by (simp add: haxTimer_line_def haxSolenoidSet_def arrays_ok_def Let_def)

lemma fold_haxTimer_other:
  "i \<notin> set js \<Longrightarrow> hax_view i (fold haxTimer_line js s) = hax_view i s
      \<and> line_view i (fold haxTimer_line js s) = line_view i s"
  by (induction js arbitrary: s) (simp_all add: haxTimer_line_other)

lemma fold_haxTimer_time: "time (fold haxTimer_line js s) = time s"
  by (induction js arbitrary: s) (simp_all add: haxTimer_line_time)

lemma fold_haxTimer_arrays: "arrays_ok (fold haxTimer_line js s) = arrays_ok s"
  by (induction js arbitrary: s) (simp_all add: haxTimer_line_arrays)

lemma fold_haxTimer_cooldown: "noPinInterrupts (fold haxTimer_line js s) = noPinInterrupts s"
  by (induction js arbitrary: s) (simp_all add: haxTimer_line_def haxSolenoidSet_def Let_def)

lemma six_lines_split: "i < 6 \<Longrightarrow> [0..<6] = [0..<i] @ i # [Suc i..<6]"
  by (metis less_imp_le_nat upt_add_eq_append upt_conv_Cons zero_le le_add_diff_inverse)

lemma tick_haxTimers_line:
  assumes "i < 6"
  shows "hax_view i (tick_haxTimers s) = hax_view i (haxTimer_line i (fold haxTimer_line [0..<i] s))"
    and "line_view i (tick_haxTimers s) = line_view i (haxTimer_line i (fold haxTimer_line [0..<i] s))"
  using assms by (simp_all add: tick_haxTimers_def six_lines_split[OF assms] fold_haxTimer_other)

lemma haxTimer_line_fire:
  assumes "arrays_ok s" "i < 6" "hax_view i s = (m, unixTime (time s), b)" "1 < m"
  shows "hax_view i (haxTimer_line i s) =
           (if m = 4 \<or> m = 5 then
              (m, (if b then unixTime (time s) + 604800 - (if m = 4 then 600 else 1200)
                        else unixTime (time s) + (if m = 4 then 600 else 1200)), \<not> b)
            else (0, 0, \<not> b))"
    and "line_view i (haxTimer_line i s) = (\<not> b, -1)"
  using assms
  by (auto simp add: haxTimer_line_def haxSolenoidSet_def hax_view_def line_view_def
      arrays_ok_def Let_def)

lemma haxTimer_line_idle:
  assumes "ht_haxTimerState s ! i \<le> 1 \<or> ht_triggers s ! i \<noteq> unixTime (time s)"
  shows "haxTimer_line i s = s"
  using assms by (auto simp add: haxTimer_line_def)

lemma tick_haxTimers_fire:
  assumes "arrays_ok s" "i < 6" "hax_view i s = (m, unixTime (time s), b)" "1 < m"
  shows "hax_view i (tick_haxTimers s) =
           (if m = 4 \<or> m = 5 then
              (m, (if b then unixTime (time s) + 604800 - (if m = 4 then 600 else 1200)
                        else unixTime (time s) + (if m = 4 then 600 else 1200)), \<not> b)
            else (0, 0, \<not> b))"
    and "line_view i (tick_haxTimers s) = (\<not> b, -1)"
proof -
  let ?s = "fold haxTimer_line [0..<i] s"
  have a: "arrays_ok ?s" using assms(1) by (simp add: fold_haxTimer_arrays)
  have v: "hax_view i ?s = (m, unixTime (time ?s), b)"
    using assms(3) by (simp add: fold_haxTimer_other fold_haxTimer_time)
  show "hax_view i (tick_haxTimers s) =
           (if m = 4 \<or> m = 5 then
              (m, (if b then unixTime (time s) + 604800 - (if m = 4 then 600 else 1200)
                        else unixTime (time s) + (if m = 4 then 600 else 1200)), \<not> b)
            else (0, 0, \<not> b))"
    using haxTimer_line_fire(1)[OF a assms(2) v assms(4)] assms(2)
    by (simp add: tick_haxTimers_line fold_haxTimer_time)
  show "line_view i (tick_haxTimers s) = (\<not> b, -1)"
    using haxTimer_line_fire(2)[OF a assms(2) v assms(4)] assms(2)
    by (simp add: tick_haxTimers_line)
qed

lemma tick_haxTimers_idle:
  assumes "i < 6" "ht_haxTimerState s ! i \<le> 1 \<or> ht_triggers s ! i \<noteq> unixTime (time s)"
  shows "hax_view i (tick_haxTimers s) = hax_view i s"
    and "line_view i (tick_haxTimers s) = line_view i s"
proof -
  let ?s = "fold haxTimer_line [0..<i] s"
  have v: "hax_view i ?s = hax_view i s" by (simp add: fold_haxTimer_other)
  then have "ht_haxTimerState ?s ! i \<le> 1 \<or> ht_triggers ?s ! i \<noteq> unixTime (time ?s)"
    using assms(2) by (simp add: hax_view_def fold_haxTimer_time)
  then have "haxTimer_line i ?s = ?s" by (rule haxTimer_line_idle)
  then show "hax_view i (tick_haxTimers s) = hax_view i s"
    and "line_view i (tick_haxTimers s) = line_view i s"
    using assms(1) by (simp_all add: tick_haxTimers_line fold_haxTimer_other)
qed

subsection \<open>The cooldown counter through one second-tick\<close>

lemma tick_pump_cooldown:
  "noPinInterrupts (tick_pump s) = 2 \<or> noPinInterrupts (tick_pump s) = noPinInterrupts s"
  by (simp add: tick_pump_def safeRelayWrite_def digitalWrite_def timeIs_def Let_def)

lemma tick_fert_priming_cooldown:
  "noPinInterrupts (tick_fert_priming s) = 2
   \<or> noPinInterrupts (tick_fert_priming s) = noPinInterrupts s"
  by (simp add: tick_fert_priming_def safeRelayWrite_def digitalWrite_def Let_def)

lemma tick_minute_cooldown: "noPinInterrupts (tick_minute t s) = noPinInterrupts s"
  by (simp add: tick_minute_def digitalWrite_def Let_def)

lemma tick_rotate_cooldown: "noPinInterrupts (tick_rotate s) = noPinInterrupts s"
  by (simp add: tick_rotate_def Let_def)

lemma tick_watering_cooldown: "noPinInterrupts (tick_watering cfg s) = noPinInterrupts s"
  by (simp add: tick_watering_def haxSolenoidSet_def Let_def)

lemma tick_fert_dispense_cooldown:
  "noPinInterrupts (tick_fert_dispense cfg s) = noPinInterrupts s"
  by (simp add: tick_fert_dispense_def haxSolenoidSet_def Let_def)

lemma second_tick_cooldown:
  "noPinInterrupts (second_tick cfg inp s) = 2
   \<or> noPinInterrupts (second_tick cfg inp s) = noPinInterrupts (tick_cooldown s)"
proof -
  let ?s3 = "tick_minute (in_temp inp) (tick_rain_reset (in_read inp) (tick_cooldown s))"
  let ?s4 = "tick_pump ?s3"
  let ?s7 = "tick_fert_trigger (tick_watering cfg (tick_rotate ?s4))"
  let ?s8 = "tick_fert_priming ?s7"
  have e3: "noPinInterrupts ?s3 = noPinInterrupts (tick_cooldown s)"
    by (simp add: tick_minute_cooldown tick_rain_reset_def)
  have e7: "noPinInterrupts ?s7 = noPinInterrupts ?s4"
    by (simp add: tick_fert_trigger_def tick_watering_cooldown tick_rotate_cooldown)
  have e10: "noPinInterrupts (second_tick cfg inp s) = noPinInterrupts ?s8"
    by (simp add: second_tick_def Let_def tick_haxTimers_def fold_haxTimer_cooldown
        tick_fert_dispense_cooldown)
  show ?thesis
    using tick_pump_cooldown[of ?s3] tick_fert_priming_cooldown[of ?s7] e3 e7 e10 by auto
qed

lemma fert_trigger_needs_weekday_0:
  "tick_fert_trigger s =
     (if weekDay (time s) = 0 \<and> hour (time s) = 16 \<and> minute (time s) = 0
         \<and> second (time s) = 0 \<and> auto_fertilise s
      then s\<lparr>f_startTime := unixTime (time s)\<rparr> else s)"
  by (simp add: tick_fert_trigger_def timeIs_def timeCheck_def)

subsection \<open>The priming block\<close>

lemma priming_step:
  assumes "unixTime (time s) = f_startTime s + int k"
  shows "tick_fert_priming s =
     (if k = 0 then safeRelayWrite pins_tapWater True s
      else if k = 32 then safeRelayWrite pins_fertiliser True
                       (safeRelayWrite pins_pump True (safeRelayWrite pins_tapWater False s))
      else if k = 40 then safeRelayWrite pins_fertiliser False
                       (safeRelayWrite pins_pump False (safeRelayWrite pins_tapWater True s))
      else if k = 72 then (safeRelayWrite pins_tapWater False s)
                       \<lparr>f_currentSolenoid := -1, f_startTime := 0\<rparr>
      else s)"
  using assms
  by (simp add: tick_fert_priming_def safeRelayWrite_def digitalWrite_def Let_def)

lemma relay_pins_simps:
  "relay_pins (safeRelayWrite pins_tapWater v s)
     = (v, fst (snd (relay_pins s)), snd (snd (relay_pins s)))"
  "relay_pins (safeRelayWrite pins_pump v s)
     = (fst (relay_pins s), v, snd (snd (relay_pins s)))"
  "relay_pins (safeRelayWrite pins_fertiliser v s)
     = (fst (relay_pins s), fst (snd (relay_pins s)), v)"
  "relay_pins (s\<lparr>time := t\<rparr>) = relay_pins s"
  "relay_pins (s\<lparr>f_currentSolenoid := c, f_startTime := u\<rparr>) = relay_pins s"
  by (simp_all add: relay_pins_def safeRelayWrite_def digitalWrite_def pins_tapWater_def
      pins_pump_def pins_fertiliser_def)

lemma safeRelayWrite_fert:
  "f_startTime (safeRelayWrite p v s) = f_startTime s"
  "f_currentSolenoid (safeRelayWrite p v s) = f_currentSolenoid s"
  "time (safeRelayWrite p v s) = time s"
  by (simp_all add: safeRelayWrite_def digitalWrite_def)

lemma priming_run_invariant:
  assumes clk: "\<forall>k. unixTime (clock k) = f_startTime s + int k"
  shows "k \<le> 73 \<Longrightarrow>
      relay_pins (run_ticks tick_fert_priming clock k s) = priming_expect k (relay_pins s)
    \<and> f_currentSolenoid (run_ticks tick_fert_priming clock k s)
        = (if k \<le> 72 then f_currentSolenoid s else -1)
    \<and> f_startTime (run_ticks tick_fert_priming clock k s)
        = (if k \<le> 72 then f_startTime s else 0)"
proof (induction k)
  case 0
  show ?case by (simp add: priming_expect_def)
next
  case (Suc k)
  define r where "r = (run_ticks tick_fert_priming clock k s)\<lparr>time := clock k\<rparr>"
  have k72: "k \<le> 72" using Suc.prems by simp
  have ih: "relay_pins r = priming_expect k (relay_pins s)"
    "f_currentSolenoid r = f_currentSolenoid s" "f_startTime r = f_startTime s"
    using Suc.IH k72 by (simp_all add: relay_pins_simps r_def)
  have now: "unixTime (time r) = f_startTime r + int k"
    using clk ih(3) by (simp add: r_def)
  have step: "run_ticks tick_fert_priming clock (Suc k) s = tick_fert_priming r"
    by (simp add: r_def)
  show ?case
    unfolding step priming_step[OF now]
    using ih k72
    by (simp add: relay_pins_simps safeRelayWrite_fert priming_expect_def)
qed

subsection \<open>The position controller and the dosage model\<close>

lemma spin_begins_only_with_lock:
  assumes "\<not> pinLevel s (pins_spin ! i)" "pinLevel (solenoid_service rd i s) (pins_spin ! i)"
  shows "hso_lock s = int i \<or> hso_lock s < 0"
  using assms
  by (auto simp add: solenoid_service_def digitalWrite_def Let_def split: if_splits)

lemma uint_unsigned_int: "0 \<le> x \<Longrightarrow> x < 65536 \<Longrightarrow> uint (word_of_int x :: 16 word) = x"
  by (simp add: uint_word_of_int take_bit_int_eq_self)

subsection \<open>A cursor that advances when its due time has passed\<close>

lemma run_ticks_shift:
  "run_ticks blk clock (Suc n) s
     = run_ticks blk (\<lambda>j. clock (Suc j)) n (blk (s\<lparr>time := clock 0\<rparr>))"
  by (induction n) simp_all

lemma run_ticks_add:
  "run_ticks blk clock (a + n) s
     = run_ticks blk (\<lambda>j. clock (a + j)) n (run_ticks blk clock a s)"
  by (induction n) simp_all

lemma run_ticks_add_Suc:
  "run_ticks blk clock (Suc (a + n)) s
     = run_ticks blk (\<lambda>j. clock (Suc (a + j))) n (run_ticks blk clock (Suc a) s)"
  using run_ticks_add[of blk clock "Suc a" n s] by (simp del: run_ticks.simps)

lemma history_0: "history blk obs clock 0 s = [obs s]"
  by (simp add: history_def)

lemma history_Suc_shift:
  "history blk obs clock (Suc n) s
     = obs s # history blk obs (\<lambda>j. clock (Suc j)) n (blk (s\<lparr>time := clock 0\<rparr>))"
proof -
  have "history blk obs clock (Suc n) s
      = obs (run_ticks blk clock 0 s)
        # map (\<lambda>j. obs (run_ticks blk clock (Suc j) s)) [0..<Suc n]"
    unfolding history_def by (rule map_upt_Suc)
  then show ?thesis
    by (simp add: history_def run_ticks_shift del: upt_Suc run_ticks.simps(2))
qed

lemma history_hd: "\<exists>rest. history blk obs clock n s = obs s # rest"
  by (cases n) (simp_all add: history_0 history_Suc_shift)

lemma history_add:
  "history blk obs clock (Suc a + n) s
     = map (\<lambda>j. obs (run_ticks blk clock j s)) [0..<Suc a]
       @ history blk obs (\<lambda>j. clock (Suc a + j)) n (run_ticks blk clock (Suc a) s)"
proof -
  have "[0..<Suc (Suc a + n)] = [0..<Suc a] @ [Suc a..<Suc a + Suc n]"
    by (metis add_Suc_right le_add1 upt_add_eq_append zero_le)
  moreover have "[Suc a..<Suc a + Suc n] = map (\<lambda>i. i + Suc a) [0..<Suc n]"
    using map_add_upt[of "Suc a" "Suc n"] by (simp add: add.commute del: upt_Suc)
  ultimately have "[0..<Suc (Suc a + n)] = [0..<Suc a] @ map (\<lambda>i. i + Suc a) [0..<Suc n]"
    by simp
  then have "history blk obs clock (Suc a + n) s
      = map (\<lambda>j. obs (run_ticks blk clock j s)) [0..<Suc a]
        @ map (\<lambda>i. obs (run_ticks blk clock (Suc a + i) s)) [0..<Suc n]"
    unfolding history_def by (simp add: comp_def add.commute del: upt_Suc run_ticks.simps)
  then show ?thesis
    unfolding history_def
    by (simp add: run_ticks_add_Suc del: upt_Suc run_ticks.simps)
qed

lemma remdups_adj_replicate_append:
  assumes "ys = y # rest" "y \<noteq> k"
  shows "remdups_adj (replicate (Suc m) k @ ys) = k # remdups_adj ys"
  using assms by (induction m) simp_all

lemma run_ticks_inv:
  assumes inv: "\<And>s t. I s \<Longrightarrow> I (blk (s\<lparr>time := t\<rparr>))"
  shows "I s \<Longrightarrow> I (run_ticks blk clock n s)"
  by (induction n) (simp_all add: inv)

lemma sweep_safety:
  fixes obs :: "state \<Rightarrow> 'k"
  assumes inv: "\<And>s t. I s \<Longrightarrow> I (blk (s\<lparr>time := t\<rparr>))"
    and step: "\<And>s t. I s \<Longrightarrow> active (obs s) \<Longrightarrow>
                 obs (blk (s\<lparr>time := t\<rparr>)) = obs s \<or> obs (blk (s\<lparr>time := t\<rparr>)) = nxt (obs s)"
    and idle: "\<And>s t. I s \<Longrightarrow> \<not> active (obs s) \<Longrightarrow> obs (blk (s\<lparr>time := t\<rparr>)) = obs s"
    and chainA: "\<And>s. I s \<Longrightarrow> active (obs s) \<Longrightarrow> chain (obs s) = obs s # chain (nxt (obs s))"
    and chainB: "\<And>s. I s \<Longrightarrow> \<not> active (obs s) \<Longrightarrow> chain (obs s) = [obs s]"
  shows "I s \<Longrightarrow> prefix (remdups_adj (history blk obs clock n s)) (chain (obs s))"
proof (induction n arbitrary: s clock)
  case 0
  then show ?case
    by (cases "active (obs s)") (simp_all add: history_0 chainA chainB)
next
  case (Suc n)
  define s1 where "s1 = blk (s\<lparr>time := clock 0\<rparr>)"
  define clock1 where "clock1 = (\<lambda>j. clock (Suc j))"
  have I1: "I s1" using Suc.prems inv by (simp add: s1_def)
  obtain rest where h1: "history blk obs clock1 n s1 = obs s1 # rest"
    using history_hd by blast
  have ih: "prefix (remdups_adj (obs s1 # rest)) (chain (obs s1))"
    using Suc.IH[OF I1, of clock1] h1 by simp
  have h: "history blk obs clock (Suc n) s = obs s # obs s1 # rest"
    using h1 by (simp add: history_Suc_shift s1_def clock1_def)
  show ?case
  proof (cases "obs s1 = obs s")
    case True
    then show ?thesis using ih h by simp
  next
    case False
    then have act: "active (obs s)" using idle[OF Suc.prems] s1_def by auto
    then have "obs s1 = nxt (obs s)" using step[OF Suc.prems act] False s1_def by auto
    then show ?thesis using ih h False chainA[OF Suc.prems act] by simp
  qed
qed

lemma sweep_wait:
  fixes obs :: "state \<Rightarrow> 'k" and fin :: "state \<Rightarrow> int"
  assumes inv: "\<And>s t. I s \<Longrightarrow> I (blk (s\<lparr>time := t\<rparr>))"
    and adv: "\<And>s t. I s \<Longrightarrow> active (obs s) \<Longrightarrow> fin s \<le> unixTime t \<Longrightarrow>
                 obs (blk (s\<lparr>time := t\<rparr>)) = nxt (obs s)"
    and hold: "\<And>s t. I s \<Longrightarrow> active (obs s) \<Longrightarrow> unixTime t < fin s \<Longrightarrow>
                 obs (blk (s\<lparr>time := t\<rparr>)) = obs s \<and> fin (blk (s\<lparr>time := t\<rparr>)) = fin s"
  shows "I s \<Longrightarrow> active (obs s) \<Longrightarrow> \<forall>j. unixTime (clock j) < unixTime (clock (Suc j)) \<Longrightarrow>
         \<exists>m. (\<forall>j\<le>m. obs (run_ticks blk clock j s) = obs s)
              \<and> obs (run_ticks blk clock (Suc m) s) = nxt (obs s)"
proof (induction "nat (fin s - unixTime (clock 0))" arbitrary: s clock rule: less_induct)
  case less
  show ?case
  proof (cases "fin s \<le> unixTime (clock 0)")
    case True
    have "obs (run_ticks blk clock (Suc 0) s) = nxt (obs s)"
      using adv[OF less.prems(1,2) True] by simp
    then show ?thesis by (intro exI[of _ 0]) simp
  next
    case False
    define s1 where "s1 = blk (s\<lparr>time := clock 0\<rparr>)"
    define clock1 where "clock1 = (\<lambda>j. clock (Suc j))"
    have lt: "unixTime (clock 0) < fin s" using False by simp
    have h: "obs s1 = obs s" "fin s1 = fin s"
      using hold[OF less.prems(1,2) lt] by (simp_all add: s1_def)
    have I1: "I s1" using less.prems(1) inv by (simp add: s1_def)
    have a1: "active (obs s1)" using less.prems(2) h by simp
    have m1: "\<forall>j. unixTime (clock1 j) < unixTime (clock1 (Suc j))"
      using less.prems(3) by (simp add: clock1_def)
    have "unixTime (clock 0) < unixTime (clock1 0)"
      using less.prems(3) by (simp add: clock1_def)
    then have dec: "nat (fin s1 - unixTime (clock1 0)) < nat (fin s - unixTime (clock 0))"
      using lt h by simp
    obtain m where m: "\<forall>j\<le>m. obs (run_ticks blk clock1 j s1) = obs s1"
        "obs (run_ticks blk clock1 (Suc m) s1) = nxt (obs s1)"
      using less.hyps[OF dec I1 a1 m1] by blast
    have sh: "\<And>j. run_ticks blk clock (Suc j) s = run_ticks blk clock1 j s1"
      by (simp add: run_ticks_shift s1_def clock1_def del: run_ticks.simps(2))
    have "\<forall>j\<le>Suc m. obs (run_ticks blk clock j s) = obs s"
    proof (intro allI impI)
      fix j assume "j \<le> Suc m"
      then show "obs (run_ticks blk clock j s) = obs s"
        using m(1) h(1) sh by (cases j) simp_all
    qed
    moreover have "obs (run_ticks blk clock (Suc (Suc m)) s) = nxt (obs s)"
      using m(2) h(1) sh[of "Suc m"] by simp
    ultimately show ?thesis by blast
  qed
qed

lemma sweep_liveness:
  fixes obs :: "state \<Rightarrow> 'k" and fin :: "state \<Rightarrow> int" and rank :: "'k \<Rightarrow> nat"
  assumes inv: "\<And>s t. I s \<Longrightarrow> I (blk (s\<lparr>time := t\<rparr>))"
    and adv: "\<And>s t. I s \<Longrightarrow> active (obs s) \<Longrightarrow> fin s \<le> unixTime t \<Longrightarrow>
                 obs (blk (s\<lparr>time := t\<rparr>)) = nxt (obs s)"
    and hold: "\<And>s t. I s \<Longrightarrow> active (obs s) \<Longrightarrow> unixTime t < fin s \<Longrightarrow>
                 obs (blk (s\<lparr>time := t\<rparr>)) = obs s \<and> fin (blk (s\<lparr>time := t\<rparr>)) = fin s"
    and chainA: "\<And>s. I s \<Longrightarrow> active (obs s) \<Longrightarrow>
                 nxt (obs s) \<noteq> obs s \<and> chain (obs s) = obs s # chain (nxt (obs s))"
    and chainB: "\<And>s. I s \<Longrightarrow> \<not> active (obs s) \<Longrightarrow> chain (obs s) = [obs s]"
    and rank: "\<And>s. I s \<Longrightarrow> active (obs s) \<Longrightarrow> rank (nxt (obs s)) < rank (obs s)"
  shows "I s \<Longrightarrow> \<forall>j. unixTime (clock j) < unixTime (clock (Suc j)) \<Longrightarrow>
         \<exists>n. remdups_adj (history blk obs clock n s) = chain (obs s)
              \<and> \<not> active (obs (run_ticks blk clock n s))"
proof (induction "rank (obs s)" arbitrary: s clock rule: less_induct)
  case less
  show ?case
  proof (cases "active (obs s)")
    case False
    then show ?thesis
      using chainB[OF less.prems(1)] by (intro exI[of _ 0]) (simp add: history_0)
  next
    case True
    obtain m where m: "\<forall>j\<le>m. obs (run_ticks blk clock j s) = obs s"
        "obs (run_ticks blk clock (Suc m) s) = nxt (obs s)"
      using sweep_wait[of I blk active obs fin nxt, OF inv adv hold less.prems(1) True less.prems(2)]
      by blast
    define s1 where "s1 = run_ticks blk clock (Suc m) s"
    define clock1 where "clock1 = (\<lambda>j. clock (Suc m + j))"
    have I1: "I s1" unfolding s1_def using run_ticks_inv[of I blk, OF inv less.prems(1)] by blast
    have o1: "obs s1 = nxt (obs s)" using m(2) by (simp add: s1_def)
    have m1: "\<forall>j. unixTime (clock1 j) < unixTime (clock1 (Suc j))"
      using less.prems(2) by (simp add: clock1_def)
    have dec: "rank (obs s1) < rank (obs s)" using rank[OF less.prems(1) True] o1 by simp
    obtain n where n: "remdups_adj (history blk obs clock1 n s1) = chain (obs s1)"
        "\<not> active (obs (run_ticks blk clock1 n s1))"
      using less.hyps[OF dec I1 m1] by blast
    obtain rest where r: "history blk obs clock1 n s1 = obs s1 # rest"
      using history_hd by blast
    have pre: "map (\<lambda>j. obs (run_ticks blk clock j s)) [0..<Suc m] = replicate (Suc m) (obs s)"
      using m(1) by (intro replicate_eqI) (auto simp del: run_ticks.simps upt_Suc)
    have "history blk obs clock (Suc m + n) s = replicate (Suc m) (obs s) @ history blk obs clock1 n s1"
      using history_add[of blk obs clock m n s] pre by (simp add: s1_def clock1_def del: run_ticks.simps upt_Suc replicate.simps)
    then have "remdups_adj (history blk obs clock (Suc m + n) s) = obs s # remdups_adj (history blk obs clock1 n s1)"
      using remdups_adj_replicate_append[OF r, of "obs s" m] chainA[OF less.prems(1) True] o1
      by (simp del: replicate.simps)
    then have "remdups_adj (history blk obs clock (Suc m + n) s) = chain (obs s)"
      using n(1) o1 chainA[OF less.prems(1) True] by simp
    moreover have "run_ticks blk clock (Suc m + n) s = run_ticks blk clock1 n s1"
      using run_ticks_add[of blk clock "Suc m" n s] by (simp add: s1_def clock1_def del: run_ticks.simps)
    ultimately show ?thesis using n(2) by (intro exI[of _ "Suc m + n"]) (simp del: run_ticks.simps)
  qed
qed

lemma clock_above:
  assumes "\<forall>j. unixTime (clock j) < unixTime (clock (Suc j))" "b < unixTime (clock 0)"
  shows "b < unixTime (clock j)"
proof (induction j)
  case 0
  then show ?case using assms(2) by simp
next
  case (Suc j)
  then show ?case using assms(1) by (meson less_trans)
qed

subsection \<open>The watering block\<close>

lemma w_chain_start: "w_chain (-1) = [-1, 0, 1, 2, 3, 4, 5, -2]"
  by (simp add: w_chain.simps)

lemma tick_watering_hold:
  "unixTime t < w_finishTime s \<or> w_currentSolenoid s < -1
     \<Longrightarrow> tick_watering cfg (s\<lparr>time := t\<rparr>) = s\<lparr>time := t\<rparr>"
  by (auto simp add: tick_watering_def)

lemma tick_watering_advance:
  "-1 \<le> w_currentSolenoid s \<Longrightarrow> w_finishTime s \<le> unixTime t
     \<Longrightarrow> w_currentSolenoid (tick_watering cfg (s\<lparr>time := t\<rparr>)) = w_next (w_currentSolenoid s)"
  by (simp add: tick_watering_def haxSolenoidSet_def w_next_def Let_def)

lemma tick_watering_desired:
  assumes "-1 \<le> w_currentSolenoid s" "w_finishTime s \<le> unixTime t"
  shows "hso_desiredState (tick_watering cfg (s\<lparr>time := t\<rparr>))
           = (if 0 \<le> w_currentSolenoid s
              then (hso_desiredState s)[nat (w_currentSolenoid s) := False]
              else hso_desiredState s)
       \<or> (w_currentSolenoid s < 5
          \<and> hso_desiredState (tick_watering cfg (s\<lparr>time := t\<rparr>))
              = (if 0 \<le> w_currentSolenoid s
                 then (hso_desiredState s)[nat (w_currentSolenoid s) := False]
                 else hso_desiredState s)[nat (w_currentSolenoid s + 1) := True])"
  using assms by (simp add: tick_watering_def haxSolenoidSet_def Let_def)

lemma tick_watering_arrays: "arrays_ok (tick_watering cfg s) = arrays_ok s"
  by (simp add: tick_watering_def haxSolenoidSet_def arrays_ok_def Let_def)

lemma tick_watering_bound:
  "w_currentSolenoid s \<le> 5 \<Longrightarrow> w_currentSolenoid (tick_watering cfg (s\<lparr>time := t\<rparr>)) \<le> 5"
  by (simp add: tick_watering_def haxSolenoidSet_def Let_def)

lemma tick_watering_one_open:
  assumes "one_open w_currentSolenoid s"
  shows "one_open w_currentSolenoid (tick_watering cfg (s\<lparr>time := t\<rparr>))"
proof (cases "-1 \<le> w_currentSolenoid s \<and> w_finishTime s \<le> unixTime t")
  case False
  then have "tick_watering cfg (s\<lparr>time := t\<rparr>) = s\<lparr>time := t\<rparr>"
    using tick_watering_hold[of t s cfg] by auto
  then show ?thesis using assms by (simp add: one_open_def arrays_ok_def)
next
  case True
  define c where "c = w_currentSolenoid s"
  define r where "r = tick_watering cfg (s\<lparr>time := t\<rparr>)"
  define d1 where "d1 = (if 0 \<le> c then (hso_desiredState s)[nat c := False]
                          else hso_desiredState s)"
  have c: "-1 \<le> c" "c \<le> 5" and len: "length (hso_desiredState s) = 6"
    and only: "\<And>i. i < 6 \<Longrightarrow> hso_desiredState s ! i \<Longrightarrow> c = int i"
    using assms True by (simp_all add: one_open_def arrays_ok_def c_def)
  have closed: "\<not> d1 ! i" if "i < 6" for i
  proof (cases "c = int i")
    case True
    then show ?thesis using that len by (simp add: d1_def)
  next
    case False
    then have "d1 ! i = hso_desiredState s ! i" by (auto simp add: d1_def)
    then show ?thesis using only[OF that] False by auto
  qed
  have "arrays_ok (s\<lparr>time := t\<rparr>)"
    using assms by (simp add: one_open_def arrays_ok_def)
  then have a: "arrays_ok r"
    by (simp add: r_def tick_watering_arrays)
  have cur: "w_currentSolenoid r = w_next c"
    using True by (simp add: r_def c_def tick_watering_advance)
  have rng: "-2 \<le> w_next c" "w_next c \<le> 5" using c by (simp_all add: w_next_def)
  have des: "hso_desiredState r = d1 \<or> (c < 5 \<and> hso_desiredState r = d1[nat (c + 1) := True])"
    using tick_watering_desired[of s t cfg] True unfolding r_def c_def d1_def by blast
  have "w_currentSolenoid r = int i" if "i < 6" "hso_desiredState r ! i" for i
  proof -
    from des that(2) closed[OF that(1)]
    have lt: "c < 5" and d: "hso_desiredState r = d1[nat (c + 1) := True]" by auto
    have "i = nat (c + 1)"
      using that(2) closed[OF that(1)] d by (cases "i = nat (c + 1)") simp_all
    then show ?thesis using cur lt c by (simp add: w_next_def)
  qed
  then show ?thesis using a cur rng by (simp add: one_open_def r_def)
qed

lemma w_chain_step:
  "-1 \<le> c \<Longrightarrow> w_next c \<noteq> c \<and> w_chain c = c # w_chain (w_next c)"
  by (simp add: w_chain.simps[of c] w_chain.simps[of "-2"] w_next_def)

lemma w_chain_idle: "\<not> -1 \<le> c \<Longrightarrow> w_chain c = [c]"
  by (simp add: w_chain.simps[of c])

subsection \<open>The dispensing block\<close>

lemma f_chain_start: "f_chain (-1, 0) = three_sweeps"
  by (simp add: f_chain.simps three_sweeps_def)

lemma f_chain_step:
  assumes "-1 \<le> c" "c \<le> 5" "0 \<le> d" "d \<le> 2"
  shows "f_next (c, d) \<noteq> (c, d) \<and> f_chain (c, d) = (c, d) # f_chain (f_next (c, d))"
  using assms
  by (auto simp add: f_chain.simps[of c d] f_chain.simps[of "-2" 0] f_next_def)

lemma f_chain_idle: "c < -1 \<Longrightarrow> f_chain (c, d) = [(c, d)]"
  by (simp add: f_chain.simps[of c d])

lemma tick_fert_dispense_hold:
  "unixTime t < f_finishTime s \<or> f_currentSolenoid s < -1
     \<Longrightarrow> tick_fert_dispense cfg (s\<lparr>time := t\<rparr>) = s\<lparr>time := t\<rparr>"
  by (auto simp add: tick_fert_dispense_def)

lemma tick_fert_dispense_advance:
  "-1 \<le> f_currentSolenoid s \<Longrightarrow> f_finishTime s \<le> unixTime t
     \<Longrightarrow> f_obs (tick_fert_dispense cfg (s\<lparr>time := t\<rparr>)) = f_next (f_obs s)"
  by (simp add: tick_fert_dispense_def haxSolenoidSet_def f_next_def f_obs_def Let_def)

lemma tick_fert_dispense_desired:
  assumes "-1 \<le> f_currentSolenoid s" "f_finishTime s \<le> unixTime t"
  shows "hso_desiredState (tick_fert_dispense cfg (s\<lparr>time := t\<rparr>))
           = (if 0 \<le> f_currentSolenoid s
              then (hso_desiredState s)[nat (f_currentSolenoid s) := False]
              else hso_desiredState s)
       \<or> (f_currentSolenoid s < 5
          \<and> hso_desiredState (tick_fert_dispense cfg (s\<lparr>time := t\<rparr>))
              = (if 0 \<le> f_currentSolenoid s
                 then (hso_desiredState s)[nat (f_currentSolenoid s) := False]
                 else hso_desiredState s)[nat (f_currentSolenoid s + 1) := True])"
  using assms by (simp add: tick_fert_dispense_def haxSolenoidSet_def Let_def)

lemma tick_fert_dispense_arrays: "arrays_ok (tick_fert_dispense cfg s) = arrays_ok s"
  by (simp add: tick_fert_dispense_def haxSolenoidSet_def arrays_ok_def Let_def)

lemma tick_fert_dispense_frame:
  "relay_pins (tick_fert_dispense cfg s) = relay_pins s"
  "f_startTime (tick_fert_dispense cfg s) = f_startTime s"
  "time (tick_fert_dispense cfg s) = time s"
  by (simp_all add: tick_fert_dispense_def haxSolenoidSet_def relay_pins_def Let_def)

lemma tick_fert_priming_idle:
  "f_startTime s = 0 \<Longrightarrow> 72 < unixTime (time s) \<Longrightarrow> tick_fert_priming s = s"
  by (simp add: tick_fert_priming_def Let_def)

lemma tick_fert_dispense_bound:
  "fert_bound s \<Longrightarrow> fert_bound (tick_fert_dispense cfg (s\<lparr>time := t\<rparr>))"
  by (simp add: tick_fert_dispense_def haxSolenoidSet_def fert_bound_def Let_def)

lemma tick_fert_dispense_inv:
  assumes "fert_inv s"
  shows "fert_inv (tick_fert_dispense cfg (s\<lparr>time := t\<rparr>))"
proof (cases "-1 \<le> f_currentSolenoid s \<and> f_finishTime s \<le> unixTime t")
  case False
  then have "tick_fert_dispense cfg (s\<lparr>time := t\<rparr>) = s\<lparr>time := t\<rparr>"
    using tick_fert_dispense_hold[of t s cfg] by auto
  then show ?thesis using assms by (simp add: fert_inv_def one_open_def arrays_ok_def)
next
  case True
  define c where "c = f_currentSolenoid s"
  define r where "r = tick_fert_dispense cfg (s\<lparr>time := t\<rparr>)"
  define d1 where "d1 = (if 0 \<le> c then (hso_desiredState s)[nat c := False]
                          else hso_desiredState s)"
  have c: "-1 \<le> c" "c \<le> 5" and len: "length (hso_desiredState s) = 6"
    and only: "\<And>i. i < 6 \<Longrightarrow> hso_desiredState s ! i \<Longrightarrow> c = int i"
    and dc: "0 \<le> f_dumpCount s" "f_dumpCount s \<le> 2"
    using assms True by (simp_all add: fert_inv_def one_open_def arrays_ok_def c_def)
  have closed: "\<not> d1 ! i" if "i < 6" for i
  proof (cases "c = int i")
    case True
    then show ?thesis using that len by (simp add: d1_def)
  next
    case False
    then have "d1 ! i = hso_desiredState s ! i" by (auto simp add: d1_def)
    then show ?thesis using only[OF that] False by auto
  qed
  have "arrays_ok (s\<lparr>time := t\<rparr>)"
    using assms by (simp add: fert_inv_def one_open_def arrays_ok_def)
  then have a: "arrays_ok r"
    by (simp add: r_def tick_fert_dispense_arrays)
  have obs: "f_obs r = f_next (c, f_dumpCount s)"
    using True tick_fert_dispense_advance[of s t cfg] by (simp add: r_def c_def f_obs_def)
  then have cur: "f_currentSolenoid r = fst (f_next (c, f_dumpCount s))"
    and dmp: "f_dumpCount r = snd (f_next (c, f_dumpCount s))"
    by (simp_all add: f_obs_def prod_eq_iff)
  have rng: "-2 \<le> f_currentSolenoid r" "f_currentSolenoid r \<le> 5"
    "0 \<le> f_dumpCount r" "f_dumpCount r \<le> 2"
    using c dc by (simp_all add: cur dmp f_next_def)
  have des: "hso_desiredState r = d1 \<or> (c < 5 \<and> hso_desiredState r = d1[nat (c + 1) := True])"
    using tick_fert_dispense_desired[of s t cfg] True unfolding r_def c_def d1_def by blast
  have "f_currentSolenoid r = int i" if "i < 6" "hso_desiredState r ! i" for i
  proof -
    from des that(2) closed[OF that(1)]
    have lt: "c < 5" and d: "hso_desiredState r = d1[nat (c + 1) := True]" by auto
    have "i = nat (c + 1)"
      using that(2) closed[OF that(1)] d by (cases "i = nat (c + 1)") simp_all
    then show ?thesis using cur lt c by (simp add: f_next_def)
  qed
  then show ?thesis using a rng by (simp add: fert_inv_def one_open_def r_def)
qed

lemma fert_tick_run_is_dispense_run:
  assumes "f_startTime s = 0" "\<forall>j. 72 < unixTime (clock j)"
  shows "run_ticks (fert_tick cfg) clock n s = run_ticks (tick_fert_dispense cfg) clock n s
       \<and> f_startTime (run_ticks (tick_fert_dispense cfg) clock n s) = 0
       \<and> relay_pins (run_ticks (tick_fert_dispense cfg) clock n s) = relay_pins s"
proof (induction n)
  case 0
  then show ?case using assms(1) by simp
next
  case (Suc n)
  define r where "r = (run_ticks (tick_fert_dispense cfg) clock n s)\<lparr>time := clock n\<rparr>"
  have r: "f_startTime r = 0" "72 < unixTime (time r)" "relay_pins r = relay_pins s"
    using Suc assms(2) by (simp_all add: r_def relay_pins_def)
  have "run_ticks (fert_tick cfg) clock (Suc n) s = fert_tick cfg r"
    using Suc by (simp add: r_def)
  also have "\<dots> = tick_fert_dispense cfg r"
    using tick_fert_priming_idle[OF r(1,2)] by (simp add: fert_tick_def)
  finally have "run_ticks (fert_tick cfg) clock (Suc n) s = tick_fert_dispense cfg r" .
  moreover have "run_ticks (tick_fert_dispense cfg) clock (Suc n) s = tick_fert_dispense cfg r"
    by (simp add: r_def)
  ultimately show ?case using r by (simp add: tick_fert_dispense_frame)
qed

lemma fert_line_step:
  assumes "arrays_ok r" "-1 \<le> f_currentSolenoid r" "f_currentSolenoid r < 5"
    "f_finishTime r \<le> unixTime (time r)"
  shows "0 < fertTimes cfg ! nat (f_currentSolenoid r + 1) \<Longrightarrow>
           hso_desiredState (tick_fert_dispense cfg r) ! nat (f_currentSolenoid r + 1)
           \<and> f_finishTime (tick_fert_dispense cfg r)
               = unixTime (time r) + fertTimes cfg ! nat (f_currentSolenoid r + 1)"
    and "fertTimes cfg ! nat (f_currentSolenoid r + 1) \<le> 0 \<Longrightarrow>
           \<not> hso_desiredState r ! nat (f_currentSolenoid r + 1) \<Longrightarrow>
           \<not> hso_desiredState (tick_fert_dispense cfg r) ! nat (f_currentSolenoid r + 1)
           \<and> f_finishTime (tick_fert_dispense cfg r) = f_finishTime r"
proof -
  define line where "line = nat (f_currentSolenoid r + 1)"
  have l: "line < 6" "0 \<le> f_currentSolenoid r \<Longrightarrow> nat (f_currentSolenoid r) \<noteq> line"
    "f_currentSolenoid r + 1 < 6" "length (hso_desiredState r) = 6"
    using assms by (simp_all add: line_def arrays_ok_def)
  have eq: "tick_fert_dispense cfg r =
      (let s1 = (if 0 \<le> f_currentSolenoid r
                 then haxSolenoidSet (nat (f_currentSolenoid r)) False r else r);
           s2 = s1\<lparr>f_currentSolenoid := f_currentSolenoid r + 1\<rparr>
       in if 0 < fertTimes cfg ! line
          then haxSolenoidSet line True (s2\<lparr>f_finishTime := unixTime (time r) + fertTimes cfg ! line\<rparr>)
          else s2)"
    using assms(2,3,4) by (simp add: tick_fert_dispense_def haxSolenoidSet_def Let_def line_def)
  show "0 < fertTimes cfg ! nat (f_currentSolenoid r + 1) \<Longrightarrow>
           hso_desiredState (tick_fert_dispense cfg r) ! nat (f_currentSolenoid r + 1)
           \<and> f_finishTime (tick_fert_dispense cfg r)
               = unixTime (time r) + fertTimes cfg ! nat (f_currentSolenoid r + 1)"
    unfolding eq line_def[symmetric] using l(1,4)
    by (simp add: haxSolenoidSet_def Let_def)
  show "fertTimes cfg ! nat (f_currentSolenoid r + 1) \<le> 0 \<Longrightarrow>
           \<not> hso_desiredState r ! nat (f_currentSolenoid r + 1) \<Longrightarrow>
           \<not> hso_desiredState (tick_fert_dispense cfg r) ! nat (f_currentSolenoid r + 1)
           \<and> f_finishTime (tick_fert_dispense cfg r) = f_finishTime r"
    unfolding eq line_def[symmetric] using l(1,2,4)
    by (simp add: haxSolenoidSet_def Let_def)
qed

lemma fert_line_close:
  assumes "arrays_ok r" "0 \<le> f_currentSolenoid r" "f_currentSolenoid r \<le> 5"
    "f_finishTime r \<le> unixTime (time r)"
  shows "\<not> hso_desiredState (tick_fert_dispense cfg r) ! nat (f_currentSolenoid r)"
  using assms
  by (auto simp add: tick_fert_dispense_def haxSolenoidSet_def arrays_ok_def Let_def nth_list_update)

lemma fert_line_hold:
  "unixTime (time r) < f_finishTime r \<Longrightarrow> tick_fert_dispense cfg r = r"
  by (simp add: tick_fert_dispense_def)

section \<open>The claims\<close>

text \<open>
  C1. At most one spin output is driven at a time. After boot line 0 spins and stops;
  line 1 takes the lock and spins. The feedback of line 0, which is not driven, then
  reads high in one pass and low again in the next: in that pass line 0 takes the branch
  that stops its motor and frees the lock, although line 1 holds it; line 1 sees nothing
  to do and keeps its output high, and line 2, waiting since boot, finds the lock free
  and starts. The spin outputs of lines 1 and 2 are both high.
\<close>

theorem two_lines_spinning:
  "map (pinLevel boot) pins_spin = [False, False, False, False, False, False]
   \<and> hso_lock boot = -1
   \<and> map (pinLevel before_glitch) pins_spin = [False, True, False, False, False, False]
   \<and> hso_lock before_glitch = 1
   \<and> map (pinLevel after_glitch) pins_spin = [False, True, True, False, False, False]
   \<and> hso_lock after_glitch = 2"
  by code_simp

text \<open>
  C2, as the claim states it: at some clock reading with weekday in 1..7, hour 16, minute
  0, second 0 the automatic trigger condition holds. With fertilizing automation enabled
  the condition \<open>timeIs(0, 16, 0, 0)\<close> is false at 16:00:00 of every weekday from 1 to 7;
  on the reading of Sunday as weekday 1 no start time is recorded, neither by the trigger
  alone nor by a whole pass of the loop.
\<close>

theorem fert_trigger_weekdays_1_to_7_counterexample:
  "auto_fertilise (boot\<lparr>time := sunday_1600\<rparr>)
   \<and> weekDay sunday_1600 = 1 \<and> hour sunday_1600 = 16
   \<and> minute sunday_1600 = 0 \<and> second sunday_1600 = 0
   \<and> \<not> timeIs 0 16 0 0 (boot\<lparr>time := sunday_1600\<rparr>)
   \<and> f_startTime (tick_fert_trigger (boot\<lparr>time := sunday_1600\<rparr>)) = 0
   \<and> f_startTime (loop settings sunday_inputs boot) = 0
   \<and> f_currentSolenoid (loop settings sunday_inputs boot) = -2
   \<and> map (\<lambda>wd. timeIs 0 16 0 0 (boot\<lparr>time := clock_at wd 16 0 0 1794153600\<rparr>))
         [1, 2, 3, 4, 5, 6, 7]
       = [False, False, False, False, False, False, False]"
  by code_simp

text \<open>
  C2, amended: Sunday is weekday 0, as the sketch numbers the days. With fertilizing
  automation enabled, at a clock reading with weekday 0, hour 16, minute 0, second 0 the
  trigger condition holds and the trigger sets the start time to the current epoch second;
  the priming block of the same tick then opens tap water. The condition holds at no
  other reading: not with a weekday of 1 or more, not at another hour, minute or second;
  and with automation disabled the trigger does nothing.
\<close>

theorem fert_trigger_on_weekday_0:
  "(weekDay (time s) = 0 \<and> hour (time s) = 16 \<and> minute (time s) = 0 \<and> second (time s) = 0
      \<and> auto_fertilise s
      \<longrightarrow> timeIs 0 16 0 0 s
        \<and> tick_fert_trigger s = s\<lparr>f_startTime := unixTime (time s)\<rparr>
        \<and> tick_fert_priming (tick_fert_trigger s)
            = safeRelayWrite pins_tapWater True (s\<lparr>f_startTime := unixTime (time s)\<rparr>))
   \<and> (timeIs 0 16 0 0 s
        = (weekDay (time s) = 0 \<and> hour (time s) = 16 \<and> minute (time s) = 0
           \<and> second (time s) = 0))
   \<and> (1 \<le> weekDay (time s) \<longrightarrow> \<not> timeIs 0 16 0 0 s \<and> tick_fert_trigger s = s)
   \<and> (\<not> auto_fertilise s \<longrightarrow> tick_fert_trigger s = s)"
proof -
  have cond: "timeIs 0 16 0 0 s
        = (weekDay (time s) = 0 \<and> hour (time s) = 16 \<and> minute (time s) = 0
           \<and> second (time s) = 0)"
    by (auto simp add: timeIs_def timeCheck_def)
  have fire: "tick_fert_trigger s = s\<lparr>f_startTime := unixTime (time s)\<rparr>"
    if "weekDay (time s) = 0 \<and> hour (time s) = 16 \<and> minute (time s) = 0
        \<and> second (time s) = 0 \<and> auto_fertilise s"
    using that by (simp add: fert_trigger_needs_weekday_0)
  have prime: "tick_fert_priming (s\<lparr>f_startTime := unixTime (time s)\<rparr>)
      = safeRelayWrite pins_tapWater True (s\<lparr>f_startTime := unixTime (time s)\<rparr>)"
    using priming_step[of "s\<lparr>f_startTime := unixTime (time s)\<rparr>" 0] by simp
  have late: "\<not> timeIs 0 16 0 0 s \<and> tick_fert_trigger s = s" if "1 \<le> weekDay (time s)"
    using that by (simp add: fert_trigger_needs_weekday_0 cond)
  have off: "tick_fert_trigger s = s" if "\<not> auto_fertilise s"
    using that by (simp add: fert_trigger_needs_weekday_0)
  from cond fire prime late off show ?thesis by auto
qed

theorem fert_trigger_on_weekday_0_witness:
  "weekDay sunday0_1600 = 0 \<and> hour sunday0_1600 = 16 \<and> minute sunday0_1600 = 0
   \<and> second sunday0_1600 = 0 \<and> auto_fertilise (boot\<lparr>time := sunday0_1600\<rparr>)
   \<and> f_startTime (boot\<lparr>time := sunday0_1600\<rparr>) = 0
   \<and> f_startTime (tick_fert_trigger (boot\<lparr>time := sunday0_1600\<rparr>)) = 1794153600
   \<and> pinLevel (tick_fert_priming (tick_fert_trigger (boot\<lparr>time := sunday0_1600\<rparr>)))
        pins_tapWater
   \<and> 1 \<le> weekDay sunday_1600
   \<and> f_startTime (tick_fert_trigger (boot\<lparr>time := sunday_1600\<rparr>)) = 0
   \<and> \<not> auto_fertilise (boot\<lparr>time := sunday0_1600, auto_fertilise := False\<rparr>)
   \<and> f_startTime (tick_fert_trigger (boot\<lparr>time := sunday0_1600, auto_fertilise := False\<rparr>)) = 0"
proof -
  have t: "weekDay sunday0_1600 = 0" "hour sunday0_1600 = 16" "minute sunday0_1600 = 0"
    "second sunday0_1600 = 0" "unixTime sunday0_1600 = 1794153600" "1 \<le> weekDay sunday_1600"
    by (simp_all add: sunday0_1600_def sunday_1600_def clock_at_def)
  have b: "auto_fertilise boot" "f_startTime boot = 0"
    by (simp_all add: boot_def setup_state_def)
  have pre: "weekDay (time (boot\<lparr>time := sunday0_1600\<rparr>)) = 0
      \<and> hour (time (boot\<lparr>time := sunday0_1600\<rparr>)) = 16
      \<and> minute (time (boot\<lparr>time := sunday0_1600\<rparr>)) = 0
      \<and> second (time (boot\<lparr>time := sunday0_1600\<rparr>)) = 0
      \<and> auto_fertilise (boot\<lparr>time := sunday0_1600\<rparr>)"
    using t b by simp
  from fert_trigger_on_weekday_0[of "boot\<lparr>time := sunday0_1600\<rparr>"] pre
  have fired: "tick_fert_trigger (boot\<lparr>time := sunday0_1600\<rparr>)
      = boot\<lparr>time := sunday0_1600,
             f_startTime := unixTime (time (boot\<lparr>time := sunday0_1600\<rparr>))\<rparr>"
    by simp
  from fert_trigger_on_weekday_0[of "boot\<lparr>time := sunday0_1600\<rparr>"] pre
  have primed: "tick_fert_priming (tick_fert_trigger (boot\<lparr>time := sunday0_1600\<rparr>))
      = safeRelayWrite pins_tapWater True
          (boot\<lparr>time := sunday0_1600,
                f_startTime := unixTime (time (boot\<lparr>time := sunday0_1600\<rparr>))\<rparr>)"
    by blast
  have c1: "f_startTime (tick_fert_trigger (boot\<lparr>time := sunday0_1600\<rparr>)) = 1794153600"
    by (simp add: fired t)
  have c2: "pinLevel (tick_fert_priming (tick_fert_trigger (boot\<lparr>time := sunday0_1600\<rparr>)))
      pins_tapWater"
    by (simp add: primed safeRelayWrite_def digitalWrite_def)
  have c3: "f_startTime (tick_fert_trigger (boot\<lparr>time := sunday_1600\<rparr>)) = 0"
    using fert_trigger_on_weekday_0[of "boot\<lparr>time := sunday_1600\<rparr>"] t b by simp
  have c4: "f_startTime (tick_fert_trigger (boot\<lparr>time := sunday0_1600, auto_fertilise := False\<rparr>))
      = 0"
    using fert_trigger_on_weekday_0[of "boot\<lparr>time := sunday0_1600, auto_fertilise := False\<rparr>"] b
    by simp
  show ?thesis
    using t b c1 c2 c3 c4 by simp
qed

text \<open>
  C3, as the claim states it: for every day record the value of \<open>calcWater\<close> is
  \<open>max(0, round(...))\<close> of the formula. The function returns an \<open>unsigned int\<close> of 16
  bits: for the record with no rain and a maximum of 8000 degrees the rounded value is
  72000, in the sketch's arithmetic as in exact arithmetic, and \<open>calcWater\<close> returns
  72000 - 65536 = 6464. The function computes in \<open>float\<close>: for the record with no rain and
  a maximum of 11184810 / 2^26 degrees (just below one sixth) and line 0 (desired level
  20, tally 20) the formula is 1.49999994..., which rounds to 1, and \<open>calcWater\<close>
  returns 2, the product and the sum having been rounded to 18.5.
\<close>

theorem calcWater_exact_counterexample:
  "max 0 (water_round settings 1 3 heat_state) = 72000
   \<and> max 0 (\<lfloor>20 - (20 + (min 20 0 * 27 + 8000 * (- 9))) + (1/2 :: rat)\<rfloor>) = 72000
   \<and> uint (calcWater settings 1 3 heat_state) = 6464
   \<and> maxTemp (previousDays sixth_state ! 1) = 11184810 / 67108864
   \<and> rainFlips (previousDays sixth_state ! 1) = 0
   \<and> w_tallies sixth_state ! 0 = 20
   \<and> max 0 (\<lfloor>20 - (20 + (min 20 0 * 27 + 11184810 / 67108864 * (- 9))) + (1/2 :: rat)\<rfloor>) = 1
   \<and> uint (calcWater settings 1 0 sixth_state) = 2"
  by code_simp

text \<open>
  C3, amended: for every day record (index below 3) and every line (index below 6) for
  which \<open>round(desiredLevel[line] - (tally[line] + min(maxRain, rainFlips) * rainCoeff
  + maxTemp * tempCoeff))\<close>, evaluated as the sketch evaluates it (with its settings, in
  single-precision \<open>float\<close> arithmetic, every product, sum and difference rounded to
  the nearest \<open>float\<close>, the sum with 0.5 inside \<open>round\<close> included), is a \<open>long\<close> (at
  least -2147483648) and fits the 16-bit return type (is below 65536), \<open>calcWater\<close> is
  the maximum of 0 and that value. In the scenario (line 3, desired level 20, tally 20, buffer 60, yesterday 5
  rain flips and 30 degrees) the dose is 135; the tick that reaches line 3 adds 135 to the
  day's total, opens the line and sets the due time 135 seconds ahead; the line is still
  open at the tick 134 seconds later and is closed, the cursor moving to line 4, at the
  tick 135 seconds later.
\<close>

theorem calcWater_formula:
  assumes "d < 3" and "line < 6"
    and "- 2147483648 \<le> water_round settings d line s"
    and "water_round settings d line s < 65536"
  shows "uint (calcWater settings d line s)
           = max 0 (round_macro
               (fsub (float_of_int (desiredLevels settings ! line))
                  (fadd (w_tallies s ! line)
                     (fadd (fmul (min (maxRain settings)
                                      (float_of_int (rainFlips (previousDays s ! d))))
                                 (rainCoeff settings))
                           (fmul (maxTemp (previousDays s ! d)) (tempCoeff settings))))))
       \<and> calcWater settings 1 3 scenario_state = 135
       \<and> w_currentSolenoid (tick_watering settings scenario_state) = 3
       \<and> hso_desiredState (tick_watering settings scenario_state) ! 3
       \<and> w_finishTime (tick_watering settings scenario_state)
           = unixTime (time scenario_state) + 135
       \<and> totalAdded (previousDays (tick_watering settings scenario_state) ! 2)
           = totalAdded (previousDays scenario_state ! 2) + 135
       \<and> hso_desiredState (tick_watering settings
           ((tick_watering settings scenario_state)\<lparr>time := clock_at 3 8 8 59 1793693339\<rparr>)) ! 3
       \<and> w_currentSolenoid (tick_watering settings
           ((tick_watering settings scenario_state)\<lparr>time := clock_at 3 8 8 59 1793693339\<rparr>)) = 3
       \<and> \<not> hso_desiredState (tick_watering settings
           ((tick_watering settings scenario_state)\<lparr>time := clock_at 3 8 9 0 1793693340\<rparr>)) ! 3
       \<and> w_currentSolenoid (tick_watering settings
           ((tick_watering settings scenario_state)\<lparr>time := clock_at 3 8 9 0 1793693340\<rparr>)) = 4"
proof -
  have "uint (calcWater settings d line s) = max 0 (water_round settings d line s)"
    using assms(4) by (simp add: calcWater_def uint_unsigned_int)
  then have general: "uint (calcWater settings d line s)
           = max 0 (round_macro
               (fsub (float_of_int (desiredLevels settings ! line))
                  (fadd (w_tallies s ! line)
                     (fadd (fmul (min (maxRain settings)
                                      (float_of_int (rainFlips (previousDays s ! d))))
                                 (rainCoeff settings))
                           (fmul (maxTemp (previousDays s ! d)) (tempCoeff settings))))))"
    by (simp add: water_round_def Let_def)
  have dose: "calcWater settings 1 3 scenario_state = 135"
    by code_simp
  have opened: "w_currentSolenoid (tick_watering settings scenario_state) = 3
       \<and> hso_desiredState (tick_watering settings scenario_state) ! 3
       \<and> w_finishTime (tick_watering settings scenario_state)
           = unixTime (time scenario_state) + 135
       \<and> totalAdded (previousDays (tick_watering settings scenario_state) ! 2)
           = totalAdded (previousDays scenario_state ! 2) + 135"
    by code_simp
  have held: "hso_desiredState (tick_watering settings
           ((tick_watering settings scenario_state)\<lparr>time := clock_at 3 8 8 59 1793693339\<rparr>)) ! 3
       \<and> w_currentSolenoid (tick_watering settings
           ((tick_watering settings scenario_state)\<lparr>time := clock_at 3 8 8 59 1793693339\<rparr>)) = 3"
    by code_simp
  have closed: "\<not> hso_desiredState (tick_watering settings
           ((tick_watering settings scenario_state)\<lparr>time := clock_at 3 8 9 0 1793693340\<rparr>)) ! 3
       \<and> w_currentSolenoid (tick_watering settings
           ((tick_watering settings scenario_state)\<lparr>time := clock_at 3 8 9 0 1793693340\<rparr>)) = 4"
    by code_simp
  from general dose opened held closed show ?thesis by simp
qed

theorem calcWater_formula_witness:
  "- 2147483648 \<le> water_round settings 1 3 scenario_state
   \<and> water_round settings 1 3 scenario_state < 65536
   \<and> uint (calcWater settings 1 3 scenario_state) = 135
   \<and> - 2147483648 \<le> water_round settings 1 0 sixth_state
   \<and> water_round settings 1 0 sixth_state < 65536
   \<and> fadd 20 (fmul (11184810 / 67108864) (- 9)) = 37 / 2
   \<and> uint (calcWater settings 1 0 sixth_state) = 2"
proof -
  have h: "- 2147483648 \<le> water_round settings 1 3 scenario_state"
    "water_round settings 1 3 scenario_state < 65536"
    by code_simp+
  have g: "- 2147483648 \<le> water_round settings 1 0 sixth_state"
    "water_round settings 1 0 sixth_state < 65536"
    by code_simp+
  have f: "fadd 20 (fmul (11184810 / 67108864) (- 9)) = 37 / 2"
    by code_simp
  have i: "(1::nat) < 3" "(3::nat) < 6" "(0::nat) < 6"
    by simp_all
  have "uint (calcWater settings 1 3 scenario_state)
      = max 0 (round_macro
               (fsub (float_of_int (desiredLevels settings ! 3))
                  (fadd (w_tallies scenario_state ! 3)
                     (fadd (fmul (min (maxRain settings)
                                      (float_of_int (rainFlips (previousDays scenario_state ! 1))))
                                 (rainCoeff settings))
                           (fmul (maxTemp (previousDays scenario_state ! 1))
                                 (tempCoeff settings))))))"
    using calcWater_formula[of 1 3 scenario_state, OF i(1) i(2) h] by blast
  also have "\<dots> = 135"
    by code_simp
  finally have a: "uint (calcWater settings 1 3 scenario_state) = 135" .
  have "uint (calcWater settings 1 0 sixth_state)
      = max 0 (round_macro
               (fsub (float_of_int (desiredLevels settings ! 0))
                  (fadd (w_tallies sixth_state ! 0)
                     (fadd (fmul (min (maxRain settings)
                                      (float_of_int (rainFlips (previousDays sixth_state ! 1))))
                                 (rainCoeff settings))
                           (fmul (maxTemp (previousDays sixth_state ! 1))
                                 (tempCoeff settings))))))"
    using calcWater_formula[of 1 0 sixth_state, OF i(1) i(3) g] by blast
  also have "\<dots> = 2"
    by code_simp
  finally have b: "uint (calcWater settings 1 0 sixth_state) = 2" .
  from h g f a b show ?thesis by blast
qed

text \<open>
  C4. The watering sweep, run from cursor -1 (Starting) over any clock whose epoch seconds
  grow from tick to tick. The cursor values seen after 0, 1, ..., \<open>n\<close> ticks,
  repetitions dropped, are a beginning of -1, 0, 1, 2, 3, 4, 5, -2: the cursor only moves
  forward, one line at a time, and never comes back to a line. After enough ticks they
  are all of that list and the cursor is -2 (Idle). The cursor names one line at a time,
  and when no line was set open at the start, a line that is set open at any tick is the
  line the cursor is at: no two lines are open together.
\<close>

theorem watering_sweep:
  assumes "w_currentSolenoid s = -1"
    and "\<forall>j. unixTime (clock j) < unixTime (clock (Suc j))"
  shows "prefix (remdups_adj (history (tick_watering cfg) w_currentSolenoid clock n s))
           [-1, 0, 1, 2, 3, 4, 5, -2]
       \<and> (\<exists>m. remdups_adj (history (tick_watering cfg) w_currentSolenoid clock m s)
                 = [-1, 0, 1, 2, 3, 4, 5, -2]
              \<and> w_currentSolenoid (run_ticks (tick_watering cfg) clock m s) = -2)
       \<and> (arrays_ok s \<and> (\<forall>i<6. \<not> hso_desiredState s ! i)
          \<longrightarrow> (\<forall>i<6. hso_desiredState (run_ticks (tick_watering cfg) clock n s) ! i
                  \<longrightarrow> w_currentSolenoid (run_ticks (tick_watering cfg) clock n s) = int i))"
proof -
  let ?I = "\<lambda>s :: state. w_currentSolenoid s \<le> 5"
  let ?blk = "tick_watering cfg"
  have I0: "?I s" using assms(1) by simp
  have inv: "\<And>s t. ?I s \<Longrightarrow> ?I (?blk (s\<lparr>time := t\<rparr>))"
    by (rule tick_watering_bound)
  have adv: "\<And>s t. ?I s \<Longrightarrow> -1 \<le> w_currentSolenoid s \<Longrightarrow> w_finishTime s \<le> unixTime t \<Longrightarrow>
      w_currentSolenoid (?blk (s\<lparr>time := t\<rparr>)) = w_next (w_currentSolenoid s)"
    by (rule tick_watering_advance)
  have hold: "\<And>s t. ?I s \<Longrightarrow> -1 \<le> w_currentSolenoid s \<Longrightarrow> unixTime t < w_finishTime s \<Longrightarrow>
      w_currentSolenoid (?blk (s\<lparr>time := t\<rparr>)) = w_currentSolenoid s
      \<and> w_finishTime (?blk (s\<lparr>time := t\<rparr>)) = w_finishTime s"
    by (simp add: tick_watering_hold)
  have idle: "\<And>s t. ?I s \<Longrightarrow> \<not> -1 \<le> w_currentSolenoid s \<Longrightarrow>
      w_currentSolenoid (?blk (s\<lparr>time := t\<rparr>)) = w_currentSolenoid s"
    by (simp add: tick_watering_hold)
  have step: "\<And>s t. ?I s \<Longrightarrow> -1 \<le> w_currentSolenoid s \<Longrightarrow>
      w_currentSolenoid (?blk (s\<lparr>time := t\<rparr>)) = w_currentSolenoid s
      \<or> w_currentSolenoid (?blk (s\<lparr>time := t\<rparr>)) = w_next (w_currentSolenoid s)"
  proof -
    fix s :: state and t assume "?I s" "-1 \<le> w_currentSolenoid s"
    then show "w_currentSolenoid (?blk (s\<lparr>time := t\<rparr>)) = w_currentSolenoid s
      \<or> w_currentSolenoid (?blk (s\<lparr>time := t\<rparr>)) = w_next (w_currentSolenoid s)"
      using adv[of s t] hold[of s t] by (cases "w_finishTime s \<le> unixTime t") auto
  qed
  have chainA: "\<And>s. ?I s \<Longrightarrow> -1 \<le> w_currentSolenoid s \<Longrightarrow>
      w_next (w_currentSolenoid s) \<noteq> w_currentSolenoid s
      \<and> w_chain (w_currentSolenoid s) = w_currentSolenoid s # w_chain (w_next (w_currentSolenoid s))"
    by (rule w_chain_step)
  have chainA': "\<And>s. ?I s \<Longrightarrow> -1 \<le> w_currentSolenoid s \<Longrightarrow>
      w_chain (w_currentSolenoid s) = w_currentSolenoid s # w_chain (w_next (w_currentSolenoid s))"
    using chainA by blast
  have chainB: "\<And>s. ?I s \<Longrightarrow> \<not> -1 \<le> w_currentSolenoid s \<Longrightarrow>
      w_chain (w_currentSolenoid s) = [w_currentSolenoid s]"
    by (rule w_chain_idle)
  have rank: "\<And>s. ?I s \<Longrightarrow> -1 \<le> w_currentSolenoid s \<Longrightarrow>
      w_rank (w_next (w_currentSolenoid s)) < w_rank (w_currentSolenoid s)"
    by (simp add: w_rank_def w_next_def)
  have safe: "prefix (remdups_adj (history ?blk w_currentSolenoid clock n s))
      (w_chain (w_currentSolenoid s))"
    using sweep_safety[of ?I ?blk "\<lambda>c. -1 \<le> c" w_currentSolenoid w_next w_chain s clock n,
        OF inv step idle chainA' chainB I0] .
  obtain m where m: "remdups_adj (history ?blk w_currentSolenoid clock m s)
        = w_chain (w_currentSolenoid s)"
    using sweep_liveness[of ?I ?blk "\<lambda>c. -1 \<le> c" w_currentSolenoid w_finishTime w_next w_chain
        w_rank s clock, OF inv adv hold chainA chainB rank I0 assms(2)]
    by blast
  have "last (remdups_adj (history ?blk w_currentSolenoid clock m s)) = -2"
    using m assms(1) by (simp add: w_chain_start)
  moreover have "last (history ?blk w_currentSolenoid clock m s)
      = w_currentSolenoid (run_ticks ?blk clock m s)"
    by (simp add: history_def del: run_ticks.simps)
  ultimately have fin: "w_currentSolenoid (run_ticks ?blk clock m s) = -2"
    by simp
  have one: "\<forall>i<6. hso_desiredState (run_ticks ?blk clock n s) ! i
      \<longrightarrow> w_currentSolenoid (run_ticks ?blk clock n s) = int i"
    if "arrays_ok s \<and> (\<forall>i<6. \<not> hso_desiredState s ! i)"
  proof -
    have "one_open w_currentSolenoid s" using that assms(1) by (simp add: one_open_def)
    then have "one_open w_currentSolenoid (run_ticks ?blk clock n s)"
      using run_ticks_inv[of "one_open w_currentSolenoid" ?blk, OF tick_watering_one_open]
      by blast
    then show ?thesis by (simp add: one_open_def)
  qed
  from safe m fin one show ?thesis
    by (auto simp add: assms(1) w_chain_start)
qed

theorem watering_sweep_witness:
  "w_currentSolenoid water_example = -1
   \<and> (\<forall>j. unixTime (water_clock j) < unixTime (water_clock (Suc j)))
   \<and> arrays_ok water_example
   \<and> hso_desiredState water_example = [False, False, False, False, False, False]
   \<and> (\<exists>m. remdups_adj (history (tick_watering settings) w_currentSolenoid water_clock m water_example)
             = [-1, 0, 1, 2, 3, 4, 5, -2]
          \<and> w_currentSolenoid (run_ticks (tick_watering settings) water_clock m water_example) = -2)
   \<and> (w_currentSolenoid (run_ticks (tick_watering settings) water_clock 200 water_example) = 1
        \<or> \<not> hso_desiredState (run_ticks (tick_watering settings) water_clock 200 water_example) ! 1)"
proof -
  have a: "arrays_ok water_example"
    by (simp add: water_example_def arrays_ok_def boot_def setup_state_def)
  have c: "w_currentSolenoid water_example = -1"
    by (simp add: water_example_def)
  have l: "hso_desiredState water_example = [False, False, False, False, False, False]"
    by (simp add: water_example_def boot_def setup_state_def eval_nat_numeral)
  have d: "\<forall>i<6. \<not> hso_desiredState water_example ! i"
    by (simp add: water_example_def boot_def setup_state_def)
  have k: "\<forall>j. unixTime (water_clock j) < unixTime (water_clock (Suc j))"
    by (simp add: water_clock_def clock_at_def)
  have w1: "\<exists>m. remdups_adj (history (tick_watering settings) w_currentSolenoid water_clock m water_example)
             = [-1, 0, 1, 2, 3, 4, 5, -2]
          \<and> w_currentSolenoid (run_ticks (tick_watering settings) water_clock m water_example) = -2"
    using watering_sweep[OF c k, of settings 0] by blast
  have "\<forall>i<6. hso_desiredState (run_ticks (tick_watering settings) water_clock 200 water_example) ! i
      \<longrightarrow> w_currentSolenoid (run_ticks (tick_watering settings) water_clock 200 water_example) = int i"
    using watering_sweep[OF c k, of settings 200] a d by blast
  from this[rule_format, of 1]
  have w2: "w_currentSolenoid (run_ticks (tick_watering settings) water_clock 200 water_example) = 1
      \<or> \<not> hso_desiredState (run_ticks (tick_watering settings) water_clock 200 water_example) ! 1"
    by (auto simp del: run_ticks.simps)
  show ?thesis
    using w1 w2 a c l k by (simp del: run_ticks.simps)
qed

text \<open>
  C5. The priming phase. A tick whose epoch second is the recorded start time opens tap
  water; at start + 32 it closes tap water and opens pump and fertilizer valve; at
  start + 40 it opens tap water and closes pump and fertilizer valve; at start + 72 it
  closes tap water, sets the dispensing cursor to -1 (Starting) and clears the start time.
  Over the ticks of the seconds start, start + 1, ...: after the first \<open>k\<close> of them the
  relays (tap water, pump, fertilizer valve) are (on, as before, as before) for
  \<open>k\<close> in 1..32, (off, on, on) for 33..40, (on, off, off) for 41..72, with the cursor
  still what it was; after the tick of start + 72 they are all off and the cursor is -1:
  the cursor is not touched before all four steps are done.
\<close>

theorem priming_sequence:
  assumes "\<forall>j. unixTime (clock j) = f_startTime s + int j"
  shows "(unixTime (time r) = f_startTime r
            \<longrightarrow> tick_fert_priming r = safeRelayWrite pins_tapWater True r)
       \<and> (unixTime (time r) = f_startTime r + 32
            \<longrightarrow> tick_fert_priming r = safeRelayWrite pins_fertiliser True
                  (safeRelayWrite pins_pump True (safeRelayWrite pins_tapWater False r)))
       \<and> (unixTime (time r) = f_startTime r + 40
            \<longrightarrow> tick_fert_priming r = safeRelayWrite pins_fertiliser False
                  (safeRelayWrite pins_pump False (safeRelayWrite pins_tapWater True r)))
       \<and> (unixTime (time r) = f_startTime r + 72
            \<longrightarrow> tick_fert_priming r = (safeRelayWrite pins_tapWater False r)
                  \<lparr>f_currentSolenoid := -1, f_startTime := 0\<rparr>)
       \<and> (1 \<le> k \<and> k \<le> 32
            \<longrightarrow> relay_pins (run_ticks tick_fert_priming clock k s)
                  = (True, pinLevel s pins_pump, pinLevel s pins_fertiliser)
              \<and> f_currentSolenoid (run_ticks tick_fert_priming clock k s) = f_currentSolenoid s
              \<and> f_startTime (run_ticks tick_fert_priming clock k s) = f_startTime s)
       \<and> (33 \<le> k \<and> k \<le> 40
            \<longrightarrow> relay_pins (run_ticks tick_fert_priming clock k s) = (False, True, True)
              \<and> f_currentSolenoid (run_ticks tick_fert_priming clock k s) = f_currentSolenoid s
              \<and> f_startTime (run_ticks tick_fert_priming clock k s) = f_startTime s)
       \<and> (41 \<le> k \<and> k \<le> 72
            \<longrightarrow> relay_pins (run_ticks tick_fert_priming clock k s) = (True, False, False)
              \<and> f_currentSolenoid (run_ticks tick_fert_priming clock k s) = f_currentSolenoid s
              \<and> f_startTime (run_ticks tick_fert_priming clock k s) = f_startTime s)
       \<and> relay_pins (run_ticks tick_fert_priming clock 73 s) = (False, False, False)
       \<and> f_currentSolenoid (run_ticks tick_fert_priming clock 73 s) = -1
       \<and> f_startTime (run_ticks tick_fert_priming clock 73 s) = 0"
proof -
  have t0: "unixTime (time r) = f_startTime r
      \<longrightarrow> tick_fert_priming r = safeRelayWrite pins_tapWater True r"
    using priming_step[of r 0] by simp
  have t32: "unixTime (time r) = f_startTime r + 32
      \<longrightarrow> tick_fert_priming r = safeRelayWrite pins_fertiliser True
            (safeRelayWrite pins_pump True (safeRelayWrite pins_tapWater False r))"
    using priming_step[of r 32] by simp
  have t40: "unixTime (time r) = f_startTime r + 40
      \<longrightarrow> tick_fert_priming r = safeRelayWrite pins_fertiliser False
            (safeRelayWrite pins_pump False (safeRelayWrite pins_tapWater True r))"
    using priming_step[of r 40] by simp
  have t72: "unixTime (time r) = f_startTime r + 72
      \<longrightarrow> tick_fert_priming r = (safeRelayWrite pins_tapWater False r)
            \<lparr>f_currentSolenoid := -1, f_startTime := 0\<rparr>"
    using priming_step[of r 72] by simp
  have inv: "\<And>n. n \<le> 73 \<Longrightarrow>
      relay_pins (run_ticks tick_fert_priming clock n s) = priming_expect n (relay_pins s)
      \<and> f_currentSolenoid (run_ticks tick_fert_priming clock n s)
          = (if n \<le> 72 then f_currentSolenoid s else -1)
      \<and> f_startTime (run_ticks tick_fert_priming clock n s)
          = (if n \<le> 72 then f_startTime s else 0)"
    using priming_run_invariant[OF assms] by blast
  have r1: "1 \<le> k \<and> k \<le> 32
      \<longrightarrow> relay_pins (run_ticks tick_fert_priming clock k s)
            = (True, pinLevel s pins_pump, pinLevel s pins_fertiliser)
        \<and> f_currentSolenoid (run_ticks tick_fert_priming clock k s) = f_currentSolenoid s
        \<and> f_startTime (run_ticks tick_fert_priming clock k s) = f_startTime s"
    using inv[of k] by (simp add: priming_expect_def relay_pins_def)
  have r2: "33 \<le> k \<and> k \<le> 40
      \<longrightarrow> relay_pins (run_ticks tick_fert_priming clock k s) = (False, True, True)
        \<and> f_currentSolenoid (run_ticks tick_fert_priming clock k s) = f_currentSolenoid s
        \<and> f_startTime (run_ticks tick_fert_priming clock k s) = f_startTime s"
    using inv[of k] by (simp add: priming_expect_def)
  have r3: "41 \<le> k \<and> k \<le> 72
      \<longrightarrow> relay_pins (run_ticks tick_fert_priming clock k s) = (True, False, False)
        \<and> f_currentSolenoid (run_ticks tick_fert_priming clock k s) = f_currentSolenoid s
        \<and> f_startTime (run_ticks tick_fert_priming clock k s) = f_startTime s"
    using inv[of k] by (simp add: priming_expect_def)
  have r4: "relay_pins (run_ticks tick_fert_priming clock 73 s) = (False, False, False)
      \<and> f_currentSolenoid (run_ticks tick_fert_priming clock 73 s) = -1
      \<and> f_startTime (run_ticks tick_fert_priming clock 73 s) = 0"
    using inv[of 73] by (simp add: priming_expect_def)
  from t0 t32 t40 t72 r1 r2 r3 r4 show ?thesis by blast
qed

theorem priming_sequence_witness:
  "(\<forall>j. unixTime (prime_clock j) = f_startTime prime_example + int j)
   \<and> f_currentSolenoid prime_example = -2
   \<and> relay_pins (run_ticks tick_fert_priming prime_clock 1 prime_example) = (True, False, False)
   \<and> relay_pins (run_ticks tick_fert_priming prime_clock 33 prime_example) = (False, True, True)
   \<and> relay_pins (run_ticks tick_fert_priming prime_clock 41 prime_example) = (True, False, False)
   \<and> f_currentSolenoid (run_ticks tick_fert_priming prime_clock 72 prime_example) = -2
   \<and> relay_pins (run_ticks tick_fert_priming prime_clock 73 prime_example) = (False, False, False)
   \<and> f_currentSolenoid (run_ticks tick_fert_priming prime_clock 73 prime_example) = -1"
proof -
  have st: "f_startTime prime_example = 1793620801" "f_currentSolenoid prime_example = -2"
    "pinLevel prime_example pins_pump = False" "pinLevel prime_example pins_fertiliser = False"
    by (simp_all add: prime_example_def menu_fertilise_def boot_def setup_state_def clock_at_def)
  have c: "\<forall>j. unixTime (prime_clock j) = f_startTime prime_example + int j"
    by (simp add: prime_clock_def clock_at_def st)
  show ?thesis
    using priming_sequence[OF c, of prime_example 1] priming_sequence[OF c, of prime_example 33]
      priming_sequence[OF c, of prime_example 41] priming_sequence[OF c, of prime_example 72] c st
    by simp
qed

text \<open>
  C6, as the claim states it: each of the three sweeps is preceded by a priming sequence.
  The cycle started from the menu at boot (start time 12:00:01) opens line 0 for the
  first sweep at the tick of start + 72, right after the last priming step. After 193
  ticks the first sweep is over (cursor -1, counter 1), the three relays are off and the
  start time is 0; one tick later line 0 is open for the second sweep, the relays still
  off and the start time still 0: no priming came in between.
\<close>

theorem second_sweep_without_priming_counterexample:
  "f_obs (run_ticks (fert_tick settings) prime_clock 73 prime_example) = (0, 0)
   \<and> map (\<lambda>k. cycle_watch (run_ticks (fert_tick settings) prime_clock k prime_example))
        [193, 194]
     = [((-1, 1), (False, False, False), 0), ((0, 1), (False, False, False), 0)]"
  by code_simp

text \<open>
  C6, amended: after one priming sequence the dispensing phase makes exactly three
  sweeps of the six lines and returns to Idle with the counter at 0, without priming
  again. From the state the last priming step leaves (cursor -1, counter 0, start time
  0), over any clock beyond second 72 whose epoch seconds grow from tick to tick, running
  the priming and the dispensing block at every tick: the pairs (cursor, counter) seen,
  repetitions dropped, are a beginning of the three sweeps followed by (-2, 0), and after
  enough ticks all of it; the relays and the start time never change; when no line was
  set open at the start, a line that is set open is the one the cursor is at. The tick
  that moves the cursor to a line with a positive duration sets the line open and the due
  time that many seconds ahead; for a duration of zero or less it leaves the line closed
  and the due time as it was; a tick before the due time changes nothing, and the first
  tick at or after it closes the line.
\<close>

theorem fertilizing_sweeps:
  assumes "f_currentSolenoid s = -1" and "f_dumpCount s = 0" and "f_startTime s = 0"
    and "\<forall>j. unixTime (clock j) < unixTime (clock (Suc j))" and "72 < unixTime (clock 0)"
  shows "prefix (remdups_adj (history (fert_tick cfg) f_obs clock n s)) three_sweeps
       \<and> (\<exists>m. remdups_adj (history (fert_tick cfg) f_obs clock m s) = three_sweeps
              \<and> f_obs (run_ticks (fert_tick cfg) clock m s) = (-2, 0))
       \<and> relay_pins (run_ticks (fert_tick cfg) clock n s) = relay_pins s
       \<and> f_startTime (run_ticks (fert_tick cfg) clock n s) = 0
       \<and> (arrays_ok s \<and> (\<forall>i<6. \<not> hso_desiredState s ! i)
          \<longrightarrow> (\<forall>i<6. hso_desiredState (run_ticks (fert_tick cfg) clock n s) ! i
                  \<longrightarrow> f_currentSolenoid (run_ticks (fert_tick cfg) clock n s) = int i))
       \<and> (arrays_ok r \<and> -1 \<le> f_currentSolenoid r \<and> f_currentSolenoid r < 5
            \<and> f_finishTime r \<le> unixTime (time r)
            \<and> 0 < fertTimes cfg ! nat (f_currentSolenoid r + 1)
          \<longrightarrow> hso_desiredState (tick_fert_dispense cfg r) ! nat (f_currentSolenoid r + 1)
              \<and> f_finishTime (tick_fert_dispense cfg r)
                  = unixTime (time r) + fertTimes cfg ! nat (f_currentSolenoid r + 1))
       \<and> (arrays_ok r \<and> -1 \<le> f_currentSolenoid r \<and> f_currentSolenoid r < 5
            \<and> f_finishTime r \<le> unixTime (time r)
            \<and> fertTimes cfg ! nat (f_currentSolenoid r + 1) \<le> 0
            \<and> \<not> hso_desiredState r ! nat (f_currentSolenoid r + 1)
          \<longrightarrow> \<not> hso_desiredState (tick_fert_dispense cfg r) ! nat (f_currentSolenoid r + 1)
              \<and> f_finishTime (tick_fert_dispense cfg r) = f_finishTime r)
       \<and> (arrays_ok r \<and> 0 \<le> f_currentSolenoid r \<and> f_currentSolenoid r \<le> 5
            \<and> f_finishTime r \<le> unixTime (time r)
          \<longrightarrow> \<not> hso_desiredState (tick_fert_dispense cfg r) ! nat (f_currentSolenoid r))
       \<and> (unixTime (time r) < f_finishTime r \<longrightarrow> tick_fert_dispense cfg r = r)"
proof -
  let ?blk = "tick_fert_dispense cfg"
  let ?act = "\<lambda>k :: int \<times> int. -1 \<le> fst k"
  have I0: "fert_bound s" using assms(1,2) by (simp add: fert_bound_def)
  have above: "\<forall>j. 72 < unixTime (clock j)"
    using clock_above[OF assms(4,5)] by blast
  have same: "\<And>k. run_ticks (fert_tick cfg) clock k s = run_ticks ?blk clock k s"
    and start0: "\<And>k. f_startTime (run_ticks ?blk clock k s) = 0"
    and pins: "\<And>k. relay_pins (run_ticks ?blk clock k s) = relay_pins s"
    using fert_tick_run_is_dispense_run[OF assms(3) above] by blast+
  have hist: "\<And>k. history (fert_tick cfg) f_obs clock k s = history ?blk f_obs clock k s"
    by (simp add: history_def same del: upt_Suc run_ticks.simps)
  have inv: "\<And>s t. fert_bound s \<Longrightarrow> fert_bound (?blk (s\<lparr>time := t\<rparr>))"
    by (rule tick_fert_dispense_bound)
  have adv: "\<And>s t. fert_bound s \<Longrightarrow> ?act (f_obs s) \<Longrightarrow> f_finishTime s \<le> unixTime t \<Longrightarrow>
      f_obs (?blk (s\<lparr>time := t\<rparr>)) = f_next (f_obs s)"
    using tick_fert_dispense_advance by (simp add: f_obs_def)
  have hold: "\<And>s t. fert_bound s \<Longrightarrow> ?act (f_obs s) \<Longrightarrow> unixTime t < f_finishTime s \<Longrightarrow>
      f_obs (?blk (s\<lparr>time := t\<rparr>)) = f_obs s
      \<and> f_finishTime (?blk (s\<lparr>time := t\<rparr>)) = f_finishTime s"
    by (simp add: tick_fert_dispense_hold f_obs_def)
  have idle: "\<And>s t. fert_bound s \<Longrightarrow> \<not> ?act (f_obs s) \<Longrightarrow>
      f_obs (?blk (s\<lparr>time := t\<rparr>)) = f_obs s"
    by (simp add: tick_fert_dispense_hold f_obs_def)
  have step: "\<And>s t. fert_bound s \<Longrightarrow> ?act (f_obs s) \<Longrightarrow>
      f_obs (?blk (s\<lparr>time := t\<rparr>)) = f_obs s \<or> f_obs (?blk (s\<lparr>time := t\<rparr>)) = f_next (f_obs s)"
  proof -
    fix s :: state and t assume "fert_bound s" "?act (f_obs s)"
    then show "f_obs (?blk (s\<lparr>time := t\<rparr>)) = f_obs s
        \<or> f_obs (?blk (s\<lparr>time := t\<rparr>)) = f_next (f_obs s)"
      using adv[of s t] hold[of s t] by (cases "f_finishTime s \<le> unixTime t") auto
  qed
  have chainA: "\<And>s. fert_bound s \<Longrightarrow> ?act (f_obs s) \<Longrightarrow>
      f_next (f_obs s) \<noteq> f_obs s \<and> f_chain (f_obs s) = f_obs s # f_chain (f_next (f_obs s))"
    using f_chain_step by (simp add: fert_bound_def f_obs_def)
  have chainA': "\<And>s. fert_bound s \<Longrightarrow> ?act (f_obs s) \<Longrightarrow>
      f_chain (f_obs s) = f_obs s # f_chain (f_next (f_obs s))"
    using chainA by blast
  have chainB: "\<And>s. fert_bound s \<Longrightarrow> \<not> ?act (f_obs s) \<Longrightarrow> f_chain (f_obs s) = [f_obs s]"
    using f_chain_idle by (simp add: f_obs_def)
  have rank: "\<And>s. fert_bound s \<Longrightarrow> ?act (f_obs s) \<Longrightarrow>
      f_rank (f_next (f_obs s)) < f_rank (f_obs s)"
    by (auto simp add: f_rank_def f_next_def f_obs_def fert_bound_def)
  have o0: "f_obs s = (-1, 0)" using assms(1,2) by (simp add: f_obs_def)
  have safe: "prefix (remdups_adj (history ?blk f_obs clock n s)) (f_chain (f_obs s))"
    using sweep_safety[of fert_bound ?blk ?act f_obs f_next f_chain s clock n,
        OF inv step idle chainA' chainB I0] .
  obtain m where m: "remdups_adj (history ?blk f_obs clock m s) = f_chain (f_obs s)"
    using sweep_liveness[of fert_bound ?blk ?act f_obs f_finishTime f_next f_chain f_rank s clock,
        OF inv adv hold chainA chainB rank I0 assms(4)]
    by blast
  have "last (remdups_adj (history ?blk f_obs clock m s)) = last three_sweeps"
    using m o0 by (simp add: f_chain_start)
  moreover have "last (history ?blk f_obs clock m s) = f_obs (run_ticks ?blk clock m s)"
    by (simp add: history_def del: run_ticks.simps)
  ultimately have fin: "f_obs (run_ticks ?blk clock m s) = (-2, 0)"
    by (simp add: three_sweeps_def)
  have one: "\<forall>i<6. hso_desiredState (run_ticks ?blk clock n s) ! i
      \<longrightarrow> f_currentSolenoid (run_ticks ?blk clock n s) = int i"
    if "arrays_ok s \<and> (\<forall>i<6. \<not> hso_desiredState s ! i)"
  proof -
    have "fert_inv s" using that assms(1,2) by (simp add: fert_inv_def one_open_def)
    then have "fert_inv (run_ticks ?blk clock n s)"
      using run_ticks_inv[of fert_inv ?blk, OF tick_fert_dispense_inv] by blast
    then show ?thesis by (simp add: fert_inv_def one_open_def)
  qed
  have run_part: "prefix (remdups_adj (history (fert_tick cfg) f_obs clock n s)) three_sweeps
       \<and> (\<exists>m. remdups_adj (history (fert_tick cfg) f_obs clock m s) = three_sweeps
              \<and> f_obs (run_ticks (fert_tick cfg) clock m s) = (-2, 0))
       \<and> relay_pins (run_ticks (fert_tick cfg) clock n s) = relay_pins s
       \<and> f_startTime (run_ticks (fert_tick cfg) clock n s) = 0
       \<and> (arrays_ok s \<and> (\<forall>i<6. \<not> hso_desiredState s ! i)
          \<longrightarrow> (\<forall>i<6. hso_desiredState (run_ticks (fert_tick cfg) clock n s) ! i
                  \<longrightarrow> f_currentSolenoid (run_ticks (fert_tick cfg) clock n s) = int i))"
    using safe m fin one start0[of n] pins[of n]
    by (auto simp add: hist same o0 f_chain_start simp del: run_ticks.simps)
  show ?thesis
    using run_part fert_line_step[of r cfg] fert_line_close[of r cfg] fert_line_hold[of r cfg]
    by blast
qed

theorem fertilizing_sweeps_witness:
  "f_obs fert_example = (-1, 0) \<and> f_startTime fert_example = 0
   \<and> (\<forall>j. unixTime (fert_clock j) < unixTime (fert_clock (Suc j)))
   \<and> 72 < unixTime (fert_clock 0)
   \<and> arrays_ok fert_example
   \<and> hso_desiredState fert_example = [False, False, False, False, False, False]
   \<and> (\<exists>m. remdups_adj (history (fert_tick settings) f_obs fert_clock m fert_example) = three_sweeps
          \<and> f_obs (run_ticks (fert_tick settings) fert_clock m fert_example) = (-2, 0))
   \<and> relay_pins (run_ticks (fert_tick settings) fert_clock 400 fert_example) = (False, False, False)
   \<and> (f_currentSolenoid (run_ticks (fert_tick settings) fert_clock 30 fert_example) = 1
        \<or> \<not> hso_desiredState (run_ticks (fert_tick settings) fert_clock 30 fert_example) ! 1)"
proof -
  have a: "arrays_ok fert_example"
    by (simp add: fert_example_def arrays_ok_def boot_def setup_state_def)
  have c: "f_currentSolenoid fert_example = -1" "f_dumpCount fert_example = 0"
    "f_startTime fert_example = 0"
    by (simp_all add: fert_example_def boot_def setup_state_def)
  have l: "hso_desiredState fert_example = [False, False, False, False, False, False]"
    by (simp add: fert_example_def boot_def setup_state_def eval_nat_numeral)
  have d: "\<forall>i<6. \<not> hso_desiredState fert_example ! i"
    by (simp add: fert_example_def boot_def setup_state_def)
  have k: "\<forall>j. unixTime (fert_clock j) < unixTime (fert_clock (Suc j))"
    by (simp add: fert_clock_def prime_clock_def clock_at_def)
  have z: "72 < unixTime (fert_clock 0)"
    by (simp add: fert_clock_def prime_clock_def clock_at_def)
  have p: "relay_pins fert_example = (False, False, False)"
    by (simp add: fert_example_def relay_pins_def boot_def setup_state_def)
  have w1: "\<exists>m. remdups_adj (history (fert_tick settings) f_obs fert_clock m fert_example) = three_sweeps
          \<and> f_obs (run_ticks (fert_tick settings) fert_clock m fert_example) = (-2, 0)"
    using fertilizing_sweeps[OF c k z, of settings 0] by blast
  have w2: "relay_pins (run_ticks (fert_tick settings) fert_clock 400 fert_example) = (False, False, False)"
    using fertilizing_sweeps[OF c k z, of settings 400] p by (simp del: run_ticks.simps)
  have "\<forall>i<6. hso_desiredState (run_ticks (fert_tick settings) fert_clock 30 fert_example) ! i
      \<longrightarrow> f_currentSolenoid (run_ticks (fert_tick settings) fert_clock 30 fert_example) = int i"
    using fertilizing_sweeps[OF c k z, of settings 30] a d by blast
  from this[rule_format, of 1]
  have w3: "f_currentSolenoid (run_ticks (fert_tick settings) fert_clock 30 fert_example) = 1
        \<or> \<not> hso_desiredState (run_ticks (fert_tick settings) fert_clock 30 fert_example) ! 1"
    by (auto simp del: run_ticks.simps)
  show ?thesis
    using w1 w2 w3 a c l k z by (simp add: f_obs_def del: run_ticks.simps)
qed

text \<open>
  C7. A weekly hack timer (mode 4, ten minutes; mode 5, twenty minutes) of line \<open>i\<close>
  that is off and due at the current epoch second \<open>t\<close> switches the line on and re-arms
  at \<open>t + 600\<close> (mode 5: \<open>t + 1200\<close>); at the tick of that second it switches the line
  off and re-arms at \<open>t + 604800\<close>. The mode stays what it was.
\<close>

theorem weekly_timer_rearm:
  assumes "arrays_ok s" and "i < 6" and "m = 4 \<or> m = 5"
    and "hax_view i s = (m, unixTime (time s), False)"
    and "unixTime t2 = unixTime (time s) + (if m = 4 then 600 else 1200)"
  shows "hax_view i (tick_haxTimers s)
           = (m, unixTime (time s) + (if m = 4 then 600 else 1200), True)
       \<and> line_view i (tick_haxTimers s) = (True, -1)
       \<and> hax_view i (tick_haxTimers ((tick_haxTimers s)\<lparr>time := t2\<rparr>))
           = (m, unixTime (time s) + 604800, False)
       \<and> line_view i (tick_haxTimers ((tick_haxTimers s)\<lparr>time := t2\<rparr>)) = (False, -1)"
proof -
  let ?d = "if m = 4 then 600 else 1200 :: int"
  let ?s1 = "tick_haxTimers s"
  let ?s2 = "?s1\<lparr>time := t2\<rparr>"
  have m1: "1 < m" using assms(3) by auto
  have on: "hax_view i ?s1 = (m, unixTime (time s) + ?d, True)"
    using tick_haxTimers_fire(1)[OF assms(1,2,4) m1] assms(3) by auto
  have lon: "line_view i ?s1 = (True, -1)"
    using tick_haxTimers_fire(2)[OF assms(1,2,4) m1] by simp
  have "arrays_ok ?s1"
    using assms(1) by (simp add: tick_haxTimers_def fold_haxTimer_arrays)
  then have a2: "arrays_ok ?s2"
    by (simp add: arrays_ok_def)
  have v2: "hax_view i ?s2 = (m, unixTime (time ?s2), True)"
    using on assms(5) by (simp add: hax_view_def)
  have off: "hax_view i (tick_haxTimers ?s2) = (m, unixTime (time s) + 604800, False)"
    using tick_haxTimers_fire(1)[OF a2 assms(2) v2 m1] assms(3,5) by auto
  have loff: "line_view i (tick_haxTimers ?s2) = (False, -1)"
    using tick_haxTimers_fire(2)[OF a2 assms(2) v2 m1] by simp
  from on lon off loff show ?thesis by simp
qed

theorem weekly_timer_rearm_witness:
  "arrays_ok weekly_example \<and> hax_view 2 weekly_example = (4, 1793621400, False)
   \<and> hax_view 2 (tick_haxTimers weekly_example) = (4, 1793622000, True)
   \<and> hax_view 2 (tick_haxTimers
        ((tick_haxTimers weekly_example)\<lparr>time := clock_at 2 12 20 0 1793622000\<rparr>))
       = (4, 1794226200, False)"
proof -
  have a: "arrays_ok weekly_example"
    by (simp add: weekly_example_def arrays_ok_def boot_def setup_state_def)
  have v: "hax_view 2 weekly_example = (4, unixTime (time weekly_example), False)"
    by (simp add: weekly_example_def hax_view_def boot_def setup_state_def clock_at_def)
  have t: "unixTime (clock_at 2 12 20 0 1793622000)
             = unixTime (time weekly_example) + (if (4::int) = 4 then 600 else 1200)"
    by (simp add: weekly_example_def clock_at_def)
  have u: "unixTime (time weekly_example) = 1793621400"
    by (simp add: weekly_example_def clock_at_def)
  show ?thesis
    using weekly_timer_rearm[OF a _ _ v t] a v u by simp
qed

text \<open>
  C8, as the claim states it: a one-shot timer (mode 2 or 3) keeps its mode after it
  fired. It does not: line 0, set to the ten-minute timer from the menu, has mode 2 and is
  on when its trigger comes due, and mode 0 after that tick.
\<close>

theorem oneshot_mode_unchanged_counterexample:
  "hax_view 0 oneshot_example = (2, unixTime (time oneshot_example), True)
   \<and> ht_haxTimerState (tick_haxTimers oneshot_example) ! 0
       \<noteq> ht_haxTimerState oneshot_example ! 0"
  by code_simp

text \<open>
  C8, amended: when the trigger of a one-shot timer (mode 2 or 3) of line \<open>i\<close> comes
  due, the tick toggles \<open>isOn\<close> once, sets the line's desired position to the new value,
  clears the trigger and sets the mode to 0 (Off); a later tick, at whatever time, leaves
  the timer and the line's desired position as they are.
\<close>

theorem oneshot_timer_reverts_to_off:
  assumes "arrays_ok s" and "i < 6" and "m = 2 \<or> m = 3"
    and "hax_view i s = (m, unixTime (time s), b)"
  shows "hax_view i (tick_haxTimers s) = (0, 0, \<not> b)
       \<and> line_view i (tick_haxTimers s) = (\<not> b, -1)
       \<and> hax_view i (tick_haxTimers ((tick_haxTimers s)\<lparr>time := t2\<rparr>)) = (0, 0, \<not> b)
       \<and> line_view i (tick_haxTimers ((tick_haxTimers s)\<lparr>time := t2\<rparr>)) = (\<not> b, -1)"
proof -
  let ?s1 = "tick_haxTimers s"
  let ?s2 = "?s1\<lparr>time := t2\<rparr>"
  have m1: "1 < m" using assms(3) by auto
  have f: "hax_view i ?s1 = (0, 0, \<not> b)"
    using tick_haxTimers_fire(1)[OF assms(1,2,4) m1] assms(3) by auto
  have l: "line_view i ?s1 = (\<not> b, -1)"
    using tick_haxTimers_fire(2)[OF assms(1,2,4) m1] by simp
  have idle: "ht_haxTimerState ?s2 ! i \<le> 1 \<or> ht_triggers ?s2 ! i \<noteq> unixTime (time ?s2)"
    using f by (simp add: hax_view_def)
  have "hax_view i (tick_haxTimers ?s2) = hax_view i ?s2"
    and "line_view i (tick_haxTimers ?s2) = line_view i ?s2"
    using tick_haxTimers_idle[OF assms(2) idle] by simp_all
  moreover have "hax_view i ?s2 = hax_view i ?s1" "line_view i ?s2 = line_view i ?s1"
    by (simp_all add: hax_view_def line_view_def)
  ultimately show ?thesis using f l by simp
qed

theorem oneshot_timer_reverts_to_off_witness:
  "arrays_ok oneshot_example \<and> hax_view 0 oneshot_example = (2, 1793621400, True)
   \<and> hax_view 0 (tick_haxTimers oneshot_example) = (0, 0, False)
   \<and> line_view 0 (tick_haxTimers oneshot_example) = (False, -1)"
proof -
  have a: "arrays_ok oneshot_example"
    by (simp add: oneshot_example_def menu_haxTimer_def haxSolenoidSet_def arrays_ok_def
        boot_def setup_state_def Let_def)
  have v: "hax_view 0 oneshot_example = (2, unixTime (time oneshot_example), True)"
    by (simp add: oneshot_example_def menu_haxTimer_def haxSolenoidSet_def hax_view_def
        boot_def setup_state_def clock_at_def Let_def)
  have u: "unixTime (time oneshot_example) = 1793621400"
    by (simp add: oneshot_example_def clock_at_def)
  show ?thesis
    using oneshot_timer_reverts_to_off[OF a _ _ v] a v u by simp
qed

text \<open>
  C9. \<open>safeRelayWrite\<close> sets the cooldown counter to 2; the countdown at the head of the
  once-per-second block takes it to 1 and then to 0; a second-tick leaves the counter
  either at 2 (a relay was switched in it) or at what that one countdown made of it. The
  interrupt handler returns the state as it is while the counter is not 0, so it stores
  nothing right after the write and after the first countdown; with the counter at 0 it
  stores the rising-edge stamp, or the pulse length as the tank level of the current
  day, so after the second countdown it works again.
\<close>

theorem relay_cooldown_two_ticks:
  "noPinInterrupts (safeRelayWrite pin v s) = 2
   \<and> noPinInterrupts (tick_cooldown (safeRelayWrite pin v s)) = 1
   \<and> noPinInterrupts (tick_cooldown (tick_cooldown (safeRelayWrite pin v s))) = 0
   \<and> (noPinInterrupts s \<noteq> 0 \<longrightarrow> waterTankUltrasonicEcho e m s = s)
   \<and> (noPinInterrupts s = 0 \<longrightarrow>
        waterTankUltrasonicEcho True m s = s\<lparr>waterTankUltrasonicTimer := m\<rparr>
        \<and> waterTankUltrasonicEcho False m s =
            s\<lparr>previousDays := (previousDays s)
                [2 := (previousDays s ! 2)\<lparr>waterTankLevel := m - waterTankUltrasonicTimer s\<rparr>]\<rparr>)
   \<and> waterTankUltrasonicEcho e m (safeRelayWrite pin v s) = safeRelayWrite pin v s
   \<and> waterTankUltrasonicEcho e m (tick_cooldown (safeRelayWrite pin v s))
        = tick_cooldown (safeRelayWrite pin v s)
   \<and> waterTankUltrasonicTimer (waterTankUltrasonicEcho True m
        (tick_cooldown (tick_cooldown (safeRelayWrite pin v s)))) = m
   \<and> (noPinInterrupts (second_tick cfg inp s) = 2
        \<or> noPinInterrupts (second_tick cfg inp s) = noPinInterrupts (tick_cooldown s))"
  using second_tick_cooldown[of cfg inp s]
  by (simp add: safeRelayWrite_def digitalWrite_def tick_cooldown_def waterTankUltrasonicEcho_def)

theorem relay_cooldown_two_ticks_witness:
  "noPinInterrupts relay_example \<noteq> 0
   \<and> waterTankUltrasonicEcho True 777 relay_example = relay_example
   \<and> noPinInterrupts boot = 0
   \<and> waterTankUltrasonicTimer (waterTankUltrasonicEcho True 777 boot) = 777
   \<and> waterTankLevel (previousDays (waterTankUltrasonicEcho False 777 boot) ! 2) = 777"
proof -
  have n: "noPinInterrupts relay_example \<noteq> 0"
    by (simp add: relay_example_def safeRelayWrite_def digitalWrite_def)
  have b: "noPinInterrupts boot = 0" "waterTankUltrasonicTimer boot = 0"
    "length (previousDays boot) = 3"
    by (simp_all add: boot_def setup_state_def)
  show ?thesis
    using relay_cooldown_two_ticks[of pins_pump True relay_example True 777]
      relay_cooldown_two_ticks[of pins_pump True boot True 777] n b
    by simp
qed

text \<open>
  C10. The daily pump run: at 07:10:00 of any weekday, with the fertilizer-pump switch
  set, the pump block does exactly \<open>safeRelayWrite(pump, HIGH)\<close>, at 07:12:00 exactly
  \<open>safeRelayWrite(pump, LOW)\<close>; with the switch clear, or at any other time, it does
  nothing. The write drives the pump pin and starts the cooldown. The block neither
  changes the fertilizing or watering cycle's state nor reads it: the pins it leaves
  depend on the clock, the switch and the pins alone.
\<close>

theorem daily_pump_run:
  "(hour (time s) = 7 \<and> minute (time s) = 10 \<and> second (time s) = 0 \<and> auto_fertPump s
      \<longrightarrow> tick_pump s = safeRelayWrite pins_pump True s)
   \<and> (hour (time s) = 7 \<and> minute (time s) = 12 \<and> second (time s) = 0 \<and> auto_fertPump s
      \<longrightarrow> tick_pump s = safeRelayWrite pins_pump False s)
   \<and> (\<not> auto_fertPump s \<longrightarrow> tick_pump s = s)
   \<and> (\<not> (hour (time s) = 7 \<and> (minute (time s) = 10 \<or> minute (time s) = 12)
          \<and> second (time s) = 0)
      \<longrightarrow> tick_pump s = s)
   \<and> pinLevel (safeRelayWrite pins_pump v s) pins_pump = v
   \<and> noPinInterrupts (safeRelayWrite pins_pump v s) = 2
   \<and> f_startTime (tick_pump s) = f_startTime s
   \<and> f_currentSolenoid (tick_pump s) = f_currentSolenoid s
   \<and> f_dumpCount (tick_pump s) = f_dumpCount s
   \<and> f_finishTime (tick_pump s) = f_finishTime s
   \<and> w_currentSolenoid (tick_pump s) = w_currentSolenoid s
   \<and> (time s' = time s \<and> auto_fertPump s' = auto_fertPump s \<and> pinLevel s' = pinLevel s
      \<longrightarrow> pinLevel (tick_pump s') = pinLevel (tick_pump s))"
proof -
  have p1: "hour (time s) = 7 \<and> minute (time s) = 10 \<and> second (time s) = 0 \<and> auto_fertPump s
      \<longrightarrow> tick_pump s = safeRelayWrite pins_pump True s"
    by (simp add: tick_pump_def timeIs_def timeCheck_def safeRelayWrite_def digitalWrite_def
        Let_def)
  have p2: "hour (time s) = 7 \<and> minute (time s) = 12 \<and> second (time s) = 0 \<and> auto_fertPump s
      \<longrightarrow> tick_pump s = safeRelayWrite pins_pump False s"
    by (simp add: tick_pump_def timeIs_def timeCheck_def safeRelayWrite_def digitalWrite_def
        Let_def)
  have p3: "\<not> auto_fertPump s \<longrightarrow> tick_pump s = s"
    by (simp add: tick_pump_def Let_def)
  have p4: "\<not> (hour (time s) = 7 \<and> (minute (time s) = 10 \<or> minute (time s) = 12)
          \<and> second (time s) = 0) \<longrightarrow> tick_pump s = s"
    by (auto simp add: tick_pump_def timeIs_def timeCheck_def Let_def)
  have p5: "pinLevel (safeRelayWrite pins_pump v s) pins_pump = v
      \<and> noPinInterrupts (safeRelayWrite pins_pump v s) = 2"
    by (simp add: safeRelayWrite_def digitalWrite_def)
  have p6: "f_startTime (tick_pump s) = f_startTime s
      \<and> f_currentSolenoid (tick_pump s) = f_currentSolenoid s
      \<and> f_dumpCount (tick_pump s) = f_dumpCount s
      \<and> f_finishTime (tick_pump s) = f_finishTime s
      \<and> w_currentSolenoid (tick_pump s) = w_currentSolenoid s"
    by (simp add: tick_pump_def safeRelayWrite_def digitalWrite_def Let_def)
  have p7: "time s' = time s \<and> auto_fertPump s' = auto_fertPump s \<and> pinLevel s' = pinLevel s
      \<longrightarrow> pinLevel (tick_pump s') = pinLevel (tick_pump s)"
    by (auto simp add: tick_pump_def timeIs_def timeCheck_def safeRelayWrite_def
        digitalWrite_def Let_def)
  from p1 p2 p3 p4 p5 p6 p7 show ?thesis by blast
qed

theorem daily_pump_run_witness:
  "hour (time pump_on_example) = 7 \<and> minute (time pump_on_example) = 10
   \<and> second (time pump_on_example) = 0 \<and> auto_fertPump pump_on_example
   \<and> \<not> pinLevel pump_on_example pins_pump
   \<and> pinLevel (tick_pump pump_on_example) pins_pump
   \<and> noPinInterrupts (tick_pump pump_on_example) = 2
   \<and> hour (time pump_off_example) = 7 \<and> minute (time pump_off_example) = 12
   \<and> second (time pump_off_example) = 0 \<and> auto_fertPump pump_off_example
   \<and> pinLevel pump_off_example pins_pump
   \<and> \<not> pinLevel (tick_pump pump_off_example) pins_pump
   \<and> \<not> auto_fertPump (pump_on_example\<lparr>auto_fertPump := False\<rparr>)
   \<and> \<not> pinLevel (tick_pump (pump_on_example\<lparr>auto_fertPump := False\<rparr>)) pins_pump
   \<and> \<not> (hour (time boot) = 7 \<and> (minute (time boot) = 10 \<or> minute (time boot) = 12)
          \<and> second (time boot) = 0)
   \<and> \<not> pinLevel (tick_pump boot) pins_pump"
proof -
  have on: "hour (time pump_on_example) = 7 \<and> minute (time pump_on_example) = 10
      \<and> second (time pump_on_example) = 0 \<and> auto_fertPump pump_on_example
      \<and> \<not> pinLevel pump_on_example pins_pump"
    by (simp add: pump_on_example_def clock_at_def boot_def setup_state_def)
  have off: "hour (time pump_off_example) = 7 \<and> minute (time pump_off_example) = 12
      \<and> second (time pump_off_example) = 0 \<and> auto_fertPump pump_off_example
      \<and> pinLevel pump_off_example pins_pump"
    by (simp add: pump_off_example_def clock_at_def boot_def setup_state_def safeRelayWrite_def
        digitalWrite_def)
  have idle: "\<not> (hour (time boot) = 7 \<and> (minute (time boot) = 10 \<or> minute (time boot) = 12)
      \<and> second (time boot) = 0) \<and> \<not> pinLevel boot pins_pump"
    by (simp add: boot_def setup_state_def clock_at_def)
  have dis: "\<not> auto_fertPump (pump_on_example\<lparr>auto_fertPump := False\<rparr>)
      \<and> \<not> pinLevel (pump_on_example\<lparr>auto_fertPump := False\<rparr>) pins_pump"
    using on by simp
  show ?thesis
    using daily_pump_run[of pump_on_example True] daily_pump_run[of pump_off_example False]
      daily_pump_run[of "pump_on_example\<lparr>auto_fertPump := False\<rparr>"] daily_pump_run[of boot]
      on off idle dis
    by simp
qed

end
